theory Spec2Isabelle
  imports Main "HOL-Library.Word"
begin

unbundle bit_operations_syntax

section \<open>The system interface\<close>

text \<open>
  The transport of \<^verbatim>\<open>src/proxy/proxy_socket.c\<close> (client role) and
  \<^verbatim>\<open>server/render_socket.c\<close> (server role) is sequential C code over a handful of
  system calls. Each function is embedded as a function of the results the kernel gives
  to its system calls, in the order the calls are made (one script per kind of call), and
  it returns its C result together with the trace of the effects it had: descriptors
  closed, descriptor flags set, bytes handed to the kernel, lines logged.

  The build flag \<^verbatim>\<open>__APPLE__\<close> is the parameter \<open>apple\<close>: \<open>True\<close> selects the
  stream-framing code (SOCK_STREAM with an 8-byte header), \<open>False\<close> the native-framing
  code (SOCK_SEQPACKET).
\<close>

type_synonym byte = "8 word"

datatype errno = EINTR | EAGAIN | EBADF | ECONNRESET | EPIPE | ENOMEM | ENOTSOCK | EINVAL

datatype sock_type = SOCK_STREAM | SOCK_DGRAM | SOCK_RAW | SOCK_RDM | SOCK_SEQPACKET

text \<open>Results of \<^verbatim>\<open>read\<close>, \<^verbatim>\<open>write\<close> and \<^verbatim>\<open>sendmsg\<close>: \<open>-1\<close> with an errno, or a
  byte count. A read result carries the bytes the kernel has for the caller; a write or
  send result the number of bytes the kernel is ready to take. The kernel never moves
  more than the count it was asked for, which the embedding of each call writes out with
  \<open>take\<close> and \<open>min\<close>.\<close>

datatype read_ret = Read_fail errno | Read_ok "byte list"

datatype write_ret = Write_fail errno | Write_ok nat

datatype send_ret = Send_fail errno | Send_ok nat

text \<open>A control message: level, type and the array of ints at \<^verbatim>\<open>CMSG_DATA\<close>. Its
  \<^verbatim>\<open>cmsg_len\<close> is the length the kernel writes for that array.\<close>

datatype cmsg_level = SOL_SOCKET | SOL_OTHER

datatype cmsg_type = SCM_RIGHTS | SCM_OTHER

record cmsghdr =
  cmsg_level :: cmsg_level
  cmsg_type :: cmsg_type
  cmsg_data :: "int list"

text \<open>Result of \<^verbatim>\<open>recvmsg\<close>: \<open>-1\<close> with an errno, or a message: the bytes and the
  control message that the kernel has for the caller, and \<^verbatim>\<open>msg_flags\<close> (the two
  truncation bits). How much of the bytes and of the control message the call stores
  depends on the buffers it is given; the embedding of the call writes that out.\<close>

record msg_reply =
  rx_data :: "byte list"
  rx_trunc :: bool
  rx_ctrunc :: bool
  rx_control :: "cmsghdr option"

datatype recv_ret = Recv_fail errno | Recv_ok msg_reply

datatype pollbit = POLLIN | POLLOUT | POLLPRI | POLLERR | POLLHUP | POLLNVAL

datatype poll_ret = Poll_fail errno | Poll_ok nat "pollbit list"

datatype sockopt_ret = Sockopt_fail errno | Sockopt_ok sock_type

datatype pair_ret = Pair_fail errno | Pair_ok int int

text \<open>The effects of a call, in order.\<close>

datatype event =
    Log string
  | Sys_close int
  | Sys_setfd int int
  | Sys_socketpair sock_type bool pair_ret
  | Sys_write int "byte list" write_ret
  | Sys_sendmsg int "byte list" "int list option" send_ret

text \<open>How a call ends: it returns; the process ends (an \<^verbatim>\<open>assert\<close> fails, or memory
  outside an array is read or written); or the script of kernel results is used up while
  the code is about to make another system call (it has not returned yet).\<close>

datatype 'a outcome = Returned 'a | Aborted | Blocked

fun emit :: "event list \<Rightarrow> 'a \<times> event list \<Rightarrow> 'a \<times> event list" where
  "emit evs (r, tr) = (r, evs @ tr)"

fun closed_fds :: "event list \<Rightarrow> int list" where
  "closed_fds [] = []"
| "closed_fds (Sys_close fd # tr) = fd # closed_fds tr"
| "closed_fds (ev # tr) = closed_fds tr"

section \<open>Exact-size byte transfer (stream framing)\<close>

text \<open>\<^verbatim>\<open>proxy_socket_read_all(fd, buf, size)\<close>: the loop state is the script, the bytes
  stored so far (\<open>p - buf\<close>) and \<open>remaining\<close>. The boolean is the C result.\<close>

fun proxy_socket_read_all ::
  "read_ret list \<Rightarrow> byte list \<Rightarrow> nat \<Rightarrow> (bool \<times> byte list) outcome \<times> event list" where
  "proxy_socket_read_all [] buf remaining =
     (if remaining > 0 then (Blocked, []) else (Returned (True, buf), []))"
| "proxy_socket_read_all (Read_fail e # rs) buf remaining =
     (if remaining > 0 then
        (if e = EINTR \<or> e = EAGAIN then proxy_socket_read_all rs buf remaining
         else (Returned (False, buf), [Log ''failed to read from socket: %s'']))
      else (Returned (True, buf), []))"
| "proxy_socket_read_all (Read_ok bs # rs) buf remaining =
     (if remaining > 0 then
        (let chunk = take remaining bs; n = length chunk in
         if n = 0 then (Returned (False, buf), [])
         else proxy_socket_read_all rs (buf @ chunk) (remaining - n))
      else (Returned (True, buf), []))"

text \<open>\<^verbatim>\<open>proxy_socket_write_all(fd, buf, size)\<close>: \<open>buf\<close> holds the bytes not written yet
  (\<open>remaining\<close> is its length). A write of 0 bytes is not an error here: the loop goes on.\<close>

fun proxy_socket_write_all ::
  "int \<Rightarrow> write_ret list \<Rightarrow> byte list \<Rightarrow> bool outcome \<times> event list" where
  "proxy_socket_write_all fd [] buf =
     (if length buf > 0 then (Blocked, []) else (Returned True, []))"
| "proxy_socket_write_all fd (Write_fail e # rs) buf =
     (if length buf > 0 then
        emit [Sys_write fd buf (Write_fail e)]
          (if e = EINTR \<or> e = EAGAIN then proxy_socket_write_all fd rs buf
           else (Returned False, [Log ''failed to write to socket: %s'']))
      else (Returned True, []))"
| "proxy_socket_write_all fd (Write_ok k # rs) buf =
     (if length buf > 0 then
        emit [Sys_write fd buf (Write_ok k)]
          (proxy_socket_write_all fd rs (drop (min k (length buf)) buf))
      else (Returned True, []))"

text \<open>The header of a stream-framed message: two 32-bit fields in native byte order
  (little-endian on the supported hosts).\<close>

record stream_msg_header =
  hdr_size :: "32 word"
  hdr_fd_count :: "32 word"

definition le32 :: "32 word \<Rightarrow> byte list" where
  "le32 w = [ucast w, ucast (drop_bit 8 w), ucast (drop_bit 16 w), ucast (drop_bit 24 w)]"

definition un_le32 :: "byte list \<Rightarrow> 32 word" where
  "un_le32 bs = (ucast (bs ! 0)) OR push_bit 8 (ucast (bs ! 1))
     OR push_bit 16 (ucast (bs ! 2)) OR push_bit 24 (ucast (bs ! 3))"

definition hdr_bytes :: "stream_msg_header \<Rightarrow> byte list" where
  "hdr_bytes h = le32 (hdr_size h) @ le32 (hdr_fd_count h)"

definition bytes_hdr :: "byte list \<Rightarrow> stream_msg_header" where
  "bytes_hdr bs = \<lparr>hdr_size = un_le32 (take 4 bs), hdr_fd_count = un_le32 (take 4 (drop 4 bs))\<rparr>"

text \<open>The server's copies of the two loops differ from the client's in the name of the
  logger only.\<close>

fun render_socket_read_all ::
  "read_ret list \<Rightarrow> byte list \<Rightarrow> nat \<Rightarrow> (bool \<times> byte list) outcome \<times> event list" where
  "render_socket_read_all [] buf remaining =
     (if remaining > 0 then (Blocked, []) else (Returned (True, buf), []))"
| "render_socket_read_all (Read_fail e # rs) buf remaining =
     (if remaining > 0 then
        (if e = EINTR \<or> e = EAGAIN then render_socket_read_all rs buf remaining
         else (Returned (False, buf), [Log ''failed to read from socket: %s'']))
      else (Returned (True, buf), []))"
| "render_socket_read_all (Read_ok bs # rs) buf remaining =
     (if remaining > 0 then
        (let chunk = take remaining bs; n = length chunk in
         if n = 0 then (Returned (False, buf), [])
         else render_socket_read_all rs (buf @ chunk) (remaining - n))
      else (Returned (True, buf), []))"

fun render_socket_write_all ::
  "int \<Rightarrow> write_ret list \<Rightarrow> byte list \<Rightarrow> bool outcome \<times> event list" where
  "render_socket_write_all fd [] buf =
     (if length buf > 0 then (Blocked, []) else (Returned True, []))"
| "render_socket_write_all fd (Write_fail e # rs) buf =
     (if length buf > 0 then
        emit [Sys_write fd buf (Write_fail e)]
          (if e = EINTR \<or> e = EAGAIN then render_socket_write_all fd rs buf
           else (Returned False, [Log ''failed to write to socket: %s'']))
      else (Returned True, []))"
| "render_socket_write_all fd (Write_ok k # rs) buf =
     (if length buf > 0 then
        emit [Sys_write fd buf (Write_ok k)]
          (render_socket_write_all fd rs (drop (min k (length buf)) buf))
      else (Returned True, []))"

section \<open>Pair factory, capability probe, lifecycle\<close>

text \<open>\<^verbatim>\<open>set_cloexec(fd)\<close>: \<open>getfd\<close> gives the result of \<^verbatim>\<open>fcntl(fd, F_GETFD)\<close> for each
  descriptor (negative when the call fails).\<close>

definition FD_CLOEXEC :: int where
  "FD_CLOEXEC = 1"

definition set_cloexec :: "(int \<Rightarrow> int) \<Rightarrow> int \<Rightarrow> event list" where
  "set_cloexec getfd fd =
     (let flags = getfd fd in
      if flags \<ge> 0 then [Sys_setfd fd (flags OR FD_CLOEXEC)] else [])"

text \<open>The descriptors a trace leaves marked close-on-exec: those created by a
  \<^verbatim>\<open>socketpair\<close> call with \<^verbatim>\<open>SOCK_CLOEXEC\<close> and those given the flag by
  \<^verbatim>\<open>fcntl(fd, F_SETFD, ...)\<close>.\<close>

fun cloexec_marked :: "event list \<Rightarrow> int list" where
  "cloexec_marked [] = []"
| "cloexec_marked (Sys_setfd fd flags # tr) =
     (if flags AND FD_CLOEXEC \<noteq> 0 then [fd] else []) @ cloexec_marked tr"
| "cloexec_marked (Sys_socketpair t cloexec (Pair_ok a b) # tr) =
     (if cloexec then [a, b] else []) @ cloexec_marked tr"
| "cloexec_marked (ev # tr) = cloexec_marked tr"

text \<open>\<^verbatim>\<open>proxy_socket_pair(out_fds)\<close>: \<open>Some (out_fds[0], out_fds[1])\<close> for \<open>true\<close>.\<close>

definition proxy_socket_pair ::
  "bool \<Rightarrow> (int \<Rightarrow> int) \<Rightarrow> pair_ret \<Rightarrow> (int \<times> int) option \<times> event list" where
  "proxy_socket_pair apple getfd ret =
     (if apple then
        emit [Sys_socketpair SOCK_STREAM False ret]
          (case ret of
             Pair_fail e \<Rightarrow> (None, [Log ''failed to create socket pair''])
           | Pair_ok a b \<Rightarrow> (Some (a, b), set_cloexec getfd a))
      else
        emit [Sys_socketpair SOCK_SEQPACKET False ret]
          (case ret of
             Pair_fail e \<Rightarrow> (None, [Log ''failed to create socket pair''])
           | Pair_ok a b \<Rightarrow> (Some (a, b), [])))"

definition render_socket_pair ::
  "bool \<Rightarrow> (int \<Rightarrow> int) \<Rightarrow> pair_ret \<Rightarrow> (int \<times> int) option \<times> event list" where
  "render_socket_pair apple getfd ret =
     (if apple then
        emit [Sys_socketpair SOCK_STREAM False ret]
          (case ret of
             Pair_fail e \<Rightarrow> (None, [Log ''failed to create socket pair''])
           | Pair_ok a b \<Rightarrow> (Some (a, b), set_cloexec getfd a @ set_cloexec getfd b))
      else
        emit [Sys_socketpair SOCK_SEQPACKET True ret]
          (case ret of
             Pair_fail e \<Rightarrow> (None, [Log ''failed to create socket pair''])
           | Pair_ok a b \<Rightarrow> (Some (a, b), [])))"

text \<open>\<^verbatim>\<open>proxy_socket_is_seqpacket(fd)\<close>: the argument \<open>r\<close> is the result of
  \<^verbatim>\<open>getsockopt(fd, SOL_SOCKET, SO_TYPE, ...)\<close>.\<close>

definition proxy_socket_is_seqpacket :: "bool \<Rightarrow> int \<Rightarrow> sockopt_ret \<Rightarrow> bool \<times> event list" where
  "proxy_socket_is_seqpacket apple fd r =
     (case r of
        Sockopt_fail e \<Rightarrow> (False, [Log ''fd %d err %s''])
      | Sockopt_ok type \<Rightarrow>
          (if apple then (type = SOCK_STREAM \<or> type = SOCK_SEQPACKET, [])
           else (type = SOCK_SEQPACKET, [])))"

definition render_socket_is_seqpacket :: "bool \<Rightarrow> int \<Rightarrow> sockopt_ret \<Rightarrow> bool \<times> event list" where
  "render_socket_is_seqpacket apple fd r =
     (case r of
        Sockopt_fail e \<Rightarrow> (False, [])
      | Sockopt_ok type \<Rightarrow>
          (if apple then (type = SOCK_STREAM \<or> type = SOCK_SEQPACKET, [])
           else (type = SOCK_SEQPACKET, [])))"

record proxy_socket =
  fd :: int

record render_socket =
  fd :: int

definition proxy_socket_init :: "int \<Rightarrow> proxy_socket outcome" where
  "proxy_socket_init sfd = (if sfd \<ge> 0 then Returned \<lparr>proxy_socket.fd = sfd\<rparr> else Aborted)"

definition proxy_socket_fini :: "proxy_socket \<Rightarrow> event list" where
  "proxy_socket_fini socket = [Sys_close (proxy_socket.fd socket)]"

definition render_socket_init :: "int \<Rightarrow> render_socket outcome" where
  "render_socket_init sfd = (if sfd \<ge> 0 then Returned \<lparr>render_socket.fd = sfd\<rparr> else Aborted)"

definition render_socket_fini :: "render_socket \<Rightarrow> event list" where
  "render_socket_fini socket = [Sys_close (render_socket.fd socket)]"

text \<open>\<^verbatim>\<open>proxy_socket_is_connected(socket)\<close>: a zero-timeout \<^verbatim>\<open>poll\<close>, repeated while it
  is interrupted.\<close>

fun proxy_socket_is_connected :: "proxy_socket \<Rightarrow> poll_ret list \<Rightarrow> bool outcome \<times> event list" where
  "proxy_socket_is_connected socket [] = (Blocked, [])"
| "proxy_socket_is_connected socket (Poll_fail e # rs) =
     (if e = EINTR \<or> e = EAGAIN then proxy_socket_is_connected socket rs
      else (Returned False, [Log ''failed to poll socket'']))"
| "proxy_socket_is_connected socket (Poll_ok ret revents # rs) =
     (if ret = 0 then (Returned True, [])
      else if POLLERR \<in> set revents \<or> POLLHUP \<in> set revents \<or> POLLNVAL \<in> set revents
        then (Returned False, [Log ''socket disconnected''])
      else (Returned True, []))"


section \<open>Receiving\<close>

definition PROXY_SOCKET_MAX_FD_COUNT :: int where
  "PROXY_SOCKET_MAX_FD_COUNT = 8"

definition RENDER_SOCKET_MAX_FD_COUNT :: int where
  "RENDER_SOCKET_MAX_FD_COUNT = 8"

text \<open>\<^verbatim>\<open>CMSG_LEN(n)\<close> is the size of a control header plus \<open>n\<close> (the header takes 12
  bytes on the stream-framing host, 16 on the other); \<^verbatim>\<open>cmsg_len\<close> of a received header
  is \<^verbatim>\<open>CMSG_LEN\<close> of its array of 4-byte ints. \<^verbatim>\<open>CMSG_SPACE(n)\<close> rounds the header and
  \<open>n\<close> up to the alignment of control data: 4 bytes on the stream-framing host, 8 on the
  other.\<close>

definition CMSG_ALIGN :: "bool \<Rightarrow> nat \<Rightarrow> nat" where
  "CMSG_ALIGN apple n = (if apple then (n + 3) div 4 * 4 else (n + 7) div 8 * 8)"

definition CMSG_LEN :: "bool \<Rightarrow> nat \<Rightarrow> nat" where
  "CMSG_LEN apple n = (if apple then 12 else 16) + n"

definition CMSG_SPACE :: "bool \<Rightarrow> nat \<Rightarrow> nat" where
  "CMSG_SPACE apple n = CMSG_ALIGN apple (if apple then 12 else 16) + CMSG_ALIGN apple n"

definition cmsg_len :: "bool \<Rightarrow> cmsghdr \<Rightarrow> nat" where
  "cmsg_len apple c = CMSG_LEN apple (4 * length (cmsg_data c))"

text \<open>The control buffer of a \<^verbatim>\<open>recvmsg\<close> call is \<open>None\<close> when \<^verbatim>\<open>msg_control\<close> is null and
  \<open>Some msg_controllen\<close> otherwise. The kernel stores no more control data than
  \<^verbatim>\<open>msg_controllen\<close> bytes: of the control message it has for the caller, the header and
  as many of the ints as fit behind it, and nothing when the header does not fit. The
  flags it raises are those of the script.\<close>

definition recvmsg_control :: "bool \<Rightarrow> nat \<Rightarrow> cmsghdr \<Rightarrow> cmsghdr option" where
  "recvmsg_control apple msg_controllen c =
     (if msg_controllen < CMSG_LEN apple 0 then None
      else Some (c\<lparr>cmsg_data :=
             take ((msg_controllen - CMSG_LEN apple 0) div 4) (cmsg_data c)\<rparr>))"

text \<open>\<^verbatim>\<open>CMSG_FIRSTHDR(msg)\<close> after a receive: the header the kernel stored in the control
  buffer; \<^verbatim>\<open>NULL\<close> when there is no buffer or nothing was stored.\<close>

definition CMSG_FIRSTHDR :: "bool \<Rightarrow> nat option \<Rightarrow> msg_reply \<Rightarrow> cmsghdr option" where
  "CMSG_FIRSTHDR apple msg_control m =
     (case msg_control of
        None \<Rightarrow> None
      | Some msg_controllen \<Rightarrow>
          (case rx_control m of
             None \<Rightarrow> None
           | Some c \<Rightarrow> recvmsg_control apple msg_controllen c))"

text \<open>The control buffer is the array \<^verbatim>\<open>cmsg_buf\<close> of the receive functions, of
  \<^verbatim>\<open>CMSG_SPACE(sizeof(int) * MAX_FD_COUNT)\<close> bytes. The native-framing code asserts that
  \<^verbatim>\<open>msg_controllen\<close> is no larger; the stream-framing code does not, and when the kernel
  stores more than the array holds, the process is taken to end there.\<close>

definition cmsg_buf_overrun :: "bool \<Rightarrow> int \<Rightarrow> cmsghdr option \<Rightarrow> bool" where
  "cmsg_buf_overrun apple max_count cmsg =
     (case cmsg of
        None \<Rightarrow> False
      | Some c \<Rightarrow> CMSG_SPACE apple (4 * nat max_count) < cmsg_len apple c)"

text \<open>\<^verbatim>\<open>get_received_fds(msg, &count)\<close>: the descriptors of the first control header;
  \<open>count\<close> is the length of the list.\<close>

definition get_received_fds :: "bool \<Rightarrow> cmsghdr option \<Rightarrow> int list" where
  "get_received_fds apple cmsg =
     (case cmsg of
        None \<Rightarrow> []
      | Some c \<Rightarrow>
          if cmsg_level c \<noteq> SOL_SOCKET \<or> cmsg_type c \<noteq> SCM_RIGHTS \<or>
             cmsg_len apple c < CMSG_LEN apple 0
          then []
          else take ((cmsg_len apple c - CMSG_LEN apple 0) div 4) (cmsg_data c))"

text \<open>\<^verbatim>\<open>proxy_socket_recvmsg(socket, msg, out_size)\<close>. Of \<open>msg\<close> the call uses
  \<^verbatim>\<open>msg_iov[0].iov_len\<close> and the control buffer. \<open>Some (chunk, cmsg)\<close> is \<open>true\<close>: the bytes
  stored (\<open>s\<close> is their number) and the control header. The last component is the rest of
  the script.\<close>

fun proxy_socket_recvmsg ::
  "bool \<Rightarrow> (int \<Rightarrow> int) \<Rightarrow> nat \<Rightarrow> nat option \<Rightarrow> recv_ret list \<Rightarrow>
   (byte list \<times> cmsghdr option) option outcome \<times> event list \<times> recv_ret list" where
  "proxy_socket_recvmsg apple getfd iov_len msg_control [] = (Blocked, [], [])"
| "proxy_socket_recvmsg apple getfd iov_len msg_control (Recv_fail e # rs) =
     (if e = EAGAIN \<or> e = EINTR then proxy_socket_recvmsg apple getfd iov_len msg_control rs
      else (Returned None, [Log ''failed to receive message: %s''], rs))"
| "proxy_socket_recvmsg apple getfd iov_len msg_control (Recv_ok m # rs) =
     (let chunk = take iov_len (rx_data m); s = length chunk;
          cmsg = CMSG_FIRSTHDR apple msg_control m; fds = get_received_fds apple cmsg in
      if cmsg_buf_overrun apple PROXY_SOCKET_MAX_FD_COUNT cmsg then (Aborted, [], rs)
      else if s = 0 then (Returned None, [], rs)
      else if rx_trunc m \<or> rx_ctrunc m then
        (Returned None, Log ''failed to receive message: truncated'' # map Sys_close fds, rs)
      else if \<not> apple then
        (if iov_len \<noteq> s then
           (Returned None, Log ''failed to receive message: incomplete'' # map Sys_close fds, rs)
         else (Returned (Some (chunk, cmsg)), [], rs))
      else (Returned (Some (chunk, cmsg)), concat (map (set_cloexec getfd) fds), rs))"

text \<open>\<^verbatim>\<open>render_socket_recvmsg\<close>: no check of the size in either build.\<close>

fun render_socket_recvmsg ::
  "bool \<Rightarrow> (int \<Rightarrow> int) \<Rightarrow> nat \<Rightarrow> nat option \<Rightarrow> recv_ret list \<Rightarrow>
   (byte list \<times> cmsghdr option) option outcome \<times> event list \<times> recv_ret list" where
  "render_socket_recvmsg apple getfd iov_len msg_control [] = (Blocked, [], [])"
| "render_socket_recvmsg apple getfd iov_len msg_control (Recv_fail e # rs) =
     (if e = EAGAIN \<or> e = EINTR then render_socket_recvmsg apple getfd iov_len msg_control rs
      else (Returned None, [Log ''failed to receive message: %s''], rs))"
| "render_socket_recvmsg apple getfd iov_len msg_control (Recv_ok m # rs) =
     (let chunk = take iov_len (rx_data m); s = length chunk;
          cmsg = CMSG_FIRSTHDR apple msg_control m; fds = get_received_fds apple cmsg in
      if cmsg_buf_overrun apple RENDER_SOCKET_MAX_FD_COUNT cmsg then (Aborted, [], rs)
      else if s = 0 then (Returned None, [], rs)
      else if rx_trunc m \<or> rx_ctrunc m then
        (Returned None, Log ''failed to receive message: truncated'' # map Sys_close fds, rs)
      else if apple then (Returned (Some (chunk, cmsg)), concat (map (set_cloexec getfd) fds), rs)
      else (Returned (Some (chunk, cmsg)), [], rs))"

lemma proxy_socket_recvmsg_rest:
  "proxy_socket_recvmsg apple getfd iov_len msg_control rs = (Returned r, tr, rest)
   \<Longrightarrow> length rest < length rs"
  by (induction apple getfd iov_len msg_control rs rule: proxy_socket_recvmsg.induct)
     (auto simp: Let_def split: if_splits)

lemma render_socket_recvmsg_rest:
  "render_socket_recvmsg apple getfd iov_len msg_control rs = (Returned r, tr, rest)
   \<Longrightarrow> length rest < length rs"
  by (induction apple getfd iov_len msg_control rs rule: render_socket_recvmsg.induct)
     (auto simp: Let_def split: if_splits)

text \<open>The control buffer that the receive functions set up. In the stream-framing code
  it is there when the header announces descriptors and the caller takes some, and its
  length is for \<open>expected_fds\<close>, the smaller of the two counts. In the native-framing code
  it is there when \<open>max_fd_count\<close> is not 0, with a length for \<open>max_fd_count\<close> descriptors
  (for a negative \<open>max_fd_count\<close>, which passes the assertion, the length computed holds no
  descriptor).\<close>

definition expected_fds :: "stream_msg_header \<Rightarrow> int \<Rightarrow> int" where
  "expected_fds hdr max_fd_count =
     (if uint (hdr_fd_count hdr) < max_fd_count then uint (hdr_fd_count hdr)
      else max_fd_count)"

definition stream_msg_control :: "stream_msg_header \<Rightarrow> int \<Rightarrow> nat option" where
  "stream_msg_control hdr max_fd_count =
     (if hdr_fd_count hdr > 0 \<and> max_fd_count > 0
      then Some (CMSG_SPACE True (4 * nat (expected_fds hdr max_fd_count)))
      else None)"

definition native_msg_control :: "int \<Rightarrow> nat option" where
  "native_msg_control max_fd_count =
     (if max_fd_count \<noteq> 0 then Some (CMSG_SPACE False (4 * nat max_fd_count)) else None)"

text \<open>The loop of the stream-framing receive, \<^verbatim>\<open>while (total_read < size)\<close>: \<open>buf\<close> holds
  the bytes stored so far (\<open>total_read\<close> is its length), \<open>msg_control\<close> is the control
  buffer while it is still set, \<open>fds\<close> and \<open>out_fd_count\<close> are what the caller's outputs
  hold. \<open>fds_ok\<close> and \<open>out_ok\<close> tell whether the two output pointers are not null.\<close>

function proxy_socket_receive_reply_loop ::
  "(int \<Rightarrow> int) \<Rightarrow> nat \<Rightarrow> bool \<Rightarrow> int \<Rightarrow> bool \<Rightarrow> recv_ret list \<Rightarrow> byte list \<Rightarrow> nat option \<Rightarrow>
   int list \<Rightarrow> int option \<Rightarrow> (byte list \<times> int list \<times> int option) option outcome \<times> event list" where
  "proxy_socket_receive_reply_loop getfd sz fds_ok max_fd_count out_ok rs buf msg_control
      fds out_fd_count =
     (if length buf < sz then
        (case proxy_socket_recvmsg True getfd (sz - length buf) msg_control rs of
           (Returned (Some (chunk, cmsg)), tr, rest) \<Rightarrow>
             emit tr
               (if msg_control \<noteq> None then
                  (let received_fds = get_received_fds True cmsg;
                       received_fd_count =
                         (if int (length received_fds) > max_fd_count then max_fd_count
                          else int (length received_fds))
                   in proxy_socket_receive_reply_loop getfd sz fds_ok max_fd_count out_ok rest
                        (buf @ chunk) None
                        (if fds_ok then take (nat received_fd_count) received_fds else fds)
                        (if out_ok then Some received_fd_count else out_fd_count))
                else proxy_socket_receive_reply_loop getfd sz fds_ok max_fd_count out_ok rest
                       (buf @ chunk) None fds out_fd_count)
         | (Returned None, tr, rest) \<Rightarrow> (Returned None, tr)
         | (Aborted, tr, rest) \<Rightarrow> (Aborted, tr)
         | (Blocked, tr, rest) \<Rightarrow> (Blocked, tr))
      else (Returned (Some (buf, fds, out_fd_count)), []))"
  by pat_completeness auto
termination
  by (relation "measure (\<lambda>(getfd, sz, fds_ok, max_fd_count, out_ok, rs, r). length rs)")
     (auto dest: proxy_socket_recvmsg_rest [OF sym])

declare proxy_socket_receive_reply_loop.simps [simp del]

text \<open>\<^verbatim>\<open>proxy_socket_receive_reply_internal(socket, data, size, fds, max_fd_count,
  out_fd_count)\<close>. The pointers \<open>data\<close>, \<open>fds\<close> and \<open>out_fd_count\<close> are given by whether
  they are not null. \<open>Some (buf, fds, out_fd_count)\<close> is \<open>true\<close> with what the three outputs
  hold (\<open>out_fd_count\<close> is \<open>None\<close> when nothing was stored through it). Storing through a
  null \<open>out_fd_count\<close> in the native-framing code ends the process, as a failed
  \<^verbatim>\<open>assert\<close> does.\<close>

definition proxy_socket_receive_reply_internal ::
  "bool \<Rightarrow> (int \<Rightarrow> int) \<Rightarrow> proxy_socket \<Rightarrow> bool \<Rightarrow> nat \<Rightarrow> bool \<Rightarrow> int \<Rightarrow> bool \<Rightarrow>
   read_ret list \<Rightarrow> recv_ret list \<Rightarrow>
   (byte list \<times> int list \<times> int option) option outcome \<times> event list" where
  "proxy_socket_receive_reply_internal apple getfd socket data sz fds_ok max_fd_count out_ok
      reads recvs =
     (if \<not> (data \<and> sz \<noteq> 0) then (Aborted, [])
      else if apple then
        emit [Log ''proxy_receive_reply: reading framing header, expecting size=%zu'']
          (case proxy_socket_read_all reads [] 8 of
             (Returned (True, hb), tr) \<Rightarrow>
               emit (tr @ [Log ''proxy_receive_reply: got header size=%u fd_count=%u''])
                 (let hdr = bytes_hdr hb in
                  if unat (hdr_size hdr) \<noteq> sz then
                    (Returned None, [Log ''message size mismatch: expected %zu but got %u''])
                  else
                    (case proxy_socket_receive_reply_loop getfd sz fds_ok max_fd_count out_ok
                            recvs [] (stream_msg_control hdr max_fd_count) []
                            (if out_ok then Some 0 else None) of
                       (Returned (Some (buf, fds, cnt)), tr2) \<Rightarrow>
                         (Returned (Some (buf, fds, if \<not> fds_ok \<and> out_ok then Some 0 else cnt)),
                          tr2)
                     | (Returned None, tr2) \<Rightarrow> (Returned None, tr2)
                     | (Aborted, tr2) \<Rightarrow> (Aborted, tr2)
                     | (Blocked, tr2) \<Rightarrow> (Blocked, tr2)))
           | (Returned (False, hb), tr) \<Rightarrow> (Returned None, tr)
           | (Aborted, tr) \<Rightarrow> (Aborted, tr)
           | (Blocked, tr) \<Rightarrow> (Blocked, tr))
      else if max_fd_count \<noteq> 0 \<and> \<not> (fds_ok \<and> max_fd_count \<le> PROXY_SOCKET_MAX_FD_COUNT) then
        (Aborted, [])
      else
        (case proxy_socket_recvmsg False getfd sz (native_msg_control max_fd_count) recvs of
           (Returned (Some (chunk, cmsg)), tr, rest) \<Rightarrow>
             (if max_fd_count \<noteq> 0 then
                (let received_fds = get_received_fds False cmsg in
                 if \<not> int (length received_fds) \<le> max_fd_count then (Aborted, tr)
                 else if \<not> out_ok then (Aborted, tr)
                 else (Returned (Some (chunk, received_fds, Some (int (length received_fds)))),
                       tr))
              else (Returned (Some (chunk, [], if out_ok then Some 0 else None)), tr))
         | (Returned None, tr, rest) \<Rightarrow> (Returned None, tr)
         | (Aborted, tr, rest) \<Rightarrow> (Aborted, tr)
         | (Blocked, tr, rest) \<Rightarrow> (Blocked, tr)))"

definition proxy_socket_receive_reply ::
  "bool \<Rightarrow> (int \<Rightarrow> int) \<Rightarrow> proxy_socket \<Rightarrow> bool \<Rightarrow> nat \<Rightarrow> read_ret list \<Rightarrow> recv_ret list \<Rightarrow>
   (byte list \<times> int list \<times> int option) option outcome \<times> event list" where
  "proxy_socket_receive_reply apple getfd socket data sz reads recvs =
     proxy_socket_receive_reply_internal apple getfd socket data sz False 0 False reads recvs"

definition proxy_socket_receive_reply_with_fds ::
  "bool \<Rightarrow> (int \<Rightarrow> int) \<Rightarrow> proxy_socket \<Rightarrow> bool \<Rightarrow> nat \<Rightarrow> bool \<Rightarrow> int \<Rightarrow> bool \<Rightarrow>
   read_ret list \<Rightarrow> recv_ret list \<Rightarrow>
   (byte list \<times> int list \<times> int option) option outcome \<times> event list" where
  "proxy_socket_receive_reply_with_fds apple getfd socket data sz fds_ok max_fd_count out_ok
      reads recvs =
     proxy_socket_receive_reply_internal apple getfd socket data sz fds_ok max_fd_count out_ok
       reads recvs"

text \<open>The server's receive. \<^verbatim>\<open>out_size\<close> is stored through without a test, so it is
  taken to be not null; the result is \<open>Some (buf, out_size, fds, out_fd_count)\<close>.\<close>

function render_socket_receive_request_loop ::
  "(int \<Rightarrow> int) \<Rightarrow> nat \<Rightarrow> bool \<Rightarrow> int \<Rightarrow> bool \<Rightarrow> recv_ret list \<Rightarrow> byte list \<Rightarrow> nat option \<Rightarrow>
   int list \<Rightarrow> int option \<Rightarrow> (byte list \<times> int list \<times> int option) option outcome \<times> event list" where
  "render_socket_receive_request_loop getfd sz fds_ok max_fd_count out_ok rs buf msg_control
      fds out_fd_count =
     (if length buf < sz then
        (case render_socket_recvmsg True getfd (sz - length buf) msg_control rs of
           (Returned (Some (chunk, cmsg)), tr, rest) \<Rightarrow>
             emit tr
               (if msg_control \<noteq> None then
                  (let received_fds = get_received_fds True cmsg;
                       received_fd_count =
                         (if int (length received_fds) > max_fd_count then max_fd_count
                          else int (length received_fds))
                   in render_socket_receive_request_loop getfd sz fds_ok max_fd_count out_ok rest
                        (buf @ chunk) None
                        (if fds_ok then take (nat received_fd_count) received_fds else fds)
                        (if out_ok then Some received_fd_count else out_fd_count))
                else render_socket_receive_request_loop getfd sz fds_ok max_fd_count out_ok rest
                       (buf @ chunk) None fds out_fd_count)
         | (Returned None, tr, rest) \<Rightarrow> (Returned None, tr)
         | (Aborted, tr, rest) \<Rightarrow> (Aborted, tr)
         | (Blocked, tr, rest) \<Rightarrow> (Blocked, tr))
      else (Returned (Some (buf, fds, out_fd_count)), []))"
  by pat_completeness auto
termination
  by (relation "measure (\<lambda>(getfd, sz, fds_ok, max_fd_count, out_ok, rs, r). length rs)")
     (auto dest: render_socket_recvmsg_rest [OF sym])

declare render_socket_receive_request_loop.simps [simp del]

definition render_socket_receive_request_internal ::
  "bool \<Rightarrow> (int \<Rightarrow> int) \<Rightarrow> render_socket \<Rightarrow> bool \<Rightarrow> nat \<Rightarrow> bool \<Rightarrow> int \<Rightarrow> bool \<Rightarrow>
   read_ret list \<Rightarrow> recv_ret list \<Rightarrow>
   (byte list \<times> nat \<times> int list \<times> int option) option outcome \<times> event list" where
  "render_socket_receive_request_internal apple getfd socket data max_size fds_ok max_fd_count
      out_ok reads recvs =
     (if \<not> (data \<and> max_size \<noteq> 0) then (Aborted, [])
      else if apple then
        (case render_socket_read_all reads [] 8 of
           (Returned (True, hb), tr) \<Rightarrow>
             emit tr
               (let hdr = bytes_hdr hb in
                if unat (hdr_size hdr) > max_size then
                  (Returned None, [Log ''message too large: %u > %zu''])
                else
                  (case render_socket_receive_request_loop getfd (unat (hdr_size hdr)) fds_ok
                          max_fd_count out_ok recvs [] (stream_msg_control hdr max_fd_count)
                          [] (if out_ok then Some 0 else None) of
                     (Returned (Some (buf, fds, cnt)), tr2) \<Rightarrow>
                       (Returned (Some (buf, unat (hdr_size hdr), fds,
                          if \<not> fds_ok \<and> out_ok then Some 0 else cnt)), tr2)
                   | (Returned None, tr2) \<Rightarrow> (Returned None, tr2)
                   | (Aborted, tr2) \<Rightarrow> (Aborted, tr2)
                   | (Blocked, tr2) \<Rightarrow> (Blocked, tr2)))
         | (Returned (False, hb), tr) \<Rightarrow> (Returned None, tr)
         | (Aborted, tr) \<Rightarrow> (Aborted, tr)
         | (Blocked, tr) \<Rightarrow> (Blocked, tr))
      else if max_fd_count \<noteq> 0 \<and> \<not> (fds_ok \<and> max_fd_count \<le> RENDER_SOCKET_MAX_FD_COUNT) then
        (Aborted, [])
      else
        (case render_socket_recvmsg False getfd max_size (native_msg_control max_fd_count) recvs of
           (Returned (Some (chunk, cmsg)), tr, rest) \<Rightarrow>
             (if max_fd_count \<noteq> 0 then
                (let received_fds = get_received_fds False cmsg in
                 if \<not> int (length received_fds) \<le> max_fd_count then (Aborted, tr)
                 else if \<not> out_ok then (Aborted, tr)
                 else (Returned (Some (chunk, length chunk, received_fds,
                         Some (int (length received_fds)))), tr))
              else (Returned (Some (chunk, length chunk, [], if out_ok then Some 0 else None)),
                    tr))
         | (Returned None, tr, rest) \<Rightarrow> (Returned None, tr)
         | (Aborted, tr, rest) \<Rightarrow> (Aborted, tr)
         | (Blocked, tr, rest) \<Rightarrow> (Blocked, tr)))"

definition render_socket_receive_request ::
  "bool \<Rightarrow> (int \<Rightarrow> int) \<Rightarrow> render_socket \<Rightarrow> bool \<Rightarrow> nat \<Rightarrow> read_ret list \<Rightarrow> recv_ret list \<Rightarrow>
   (byte list \<times> nat \<times> int list \<times> int option) option outcome \<times> event list" where
  "render_socket_receive_request apple getfd socket data max_size reads recvs =
     render_socket_receive_request_internal apple getfd socket data max_size False 0 False
       reads recvs"

definition render_socket_receive_request_with_fds ::
  "bool \<Rightarrow> (int \<Rightarrow> int) \<Rightarrow> render_socket \<Rightarrow> bool \<Rightarrow> nat \<Rightarrow> bool \<Rightarrow> int \<Rightarrow> bool \<Rightarrow>
   read_ret list \<Rightarrow> recv_ret list \<Rightarrow>
   (byte list \<times> nat \<times> int list \<times> int option) option outcome \<times> event list" where
  "render_socket_receive_request_with_fds apple getfd socket data max_size fds_ok max_fd_count
      out_ok reads recvs =
     render_socket_receive_request_internal apple getfd socket data max_size fds_ok
       max_fd_count out_ok reads recvs"

text \<open>\<^verbatim>\<open>render_socket_receive_data(socket, data, size)\<close>: \<open>Some buf\<close> is \<open>true\<close>.\<close>

definition render_socket_receive_data ::
  "bool \<Rightarrow> (int \<Rightarrow> int) \<Rightarrow> render_socket \<Rightarrow> bool \<Rightarrow> nat \<Rightarrow> read_ret list \<Rightarrow> recv_ret list \<Rightarrow>
   byte list option outcome \<times> event list" where
  "render_socket_receive_data apple getfd socket data sz reads recvs =
     (case render_socket_receive_request apple getfd socket data sz reads recvs of
        (Returned (Some (buf, received_size, fds, cnt)), tr) \<Rightarrow>
          (if sz \<noteq> received_size then
             (Returned None,
              tr @ [Log ''failed to receive data: expected %zu but received %zu''])
           else (Returned (Some buf), tr))
      | (Returned None, tr) \<Rightarrow> (Returned None, tr)
      | (Aborted, tr) \<Rightarrow> (Aborted, tr)
      | (Blocked, tr) \<Rightarrow> (Blocked, tr))"

section \<open>Sending\<close>

text \<open>\<^verbatim>\<open>proxy_socket_sendmsg(socket, msg)\<close>: of \<open>msg\<close> the code uses the one buffer
  (\<open>data\<close>, \<open>size\<close> is its length) and the control block (\<open>None\<close> for a null
  \<^verbatim>\<open>msg_control\<close>, else the descriptors it carries). Each \<^verbatim>\<open>sendmsg\<close> call is recorded
  with the bytes and the control block given to it and with its result.

  \<^verbatim>\<open>proxy_socket_send_request_internal(socket, data, size, fds, fd_count)\<close>: \<open>data\<close> is
  \<open>None\<close> for a null pointer and \<open>Some bytes\<close> for a buffer of \<open>size = length bytes\<close>
  bytes; \<open>fds\<close> likewise. A negative \<open>fd_count\<close> passes the assertion; \<^verbatim>\<open>memcpy\<close> is then
  asked for \<^verbatim>\<open>sizeof(int) * fd_count\<close> bytes, a \<^verbatim>\<open>size_t\<close> far beyond both arrays, and the
  process is taken to end there.\<close>

fun proxy_socket_sendmsg_stream ::
  "int \<Rightarrow> byte list \<Rightarrow> int list option \<Rightarrow> send_ret list \<Rightarrow> nat \<Rightarrow> bool \<Rightarrow>
   bool outcome \<times> event list" where
  "proxy_socket_sendmsg_stream sfd data control [] total_sent fds_sent =
     (if total_sent < length data then (Blocked, []) else (Returned True, []))"
| "proxy_socket_sendmsg_stream sfd data control (Send_fail e # rs) total_sent fds_sent =
     (if total_sent < length data then
        emit [Sys_sendmsg sfd (drop total_sent data)
                (if \<not> fds_sent \<and> control \<noteq> None then control else None) (Send_fail e)]
          (if e = EAGAIN \<or> e = EINTR then
             proxy_socket_sendmsg_stream sfd data control rs total_sent fds_sent
           else (Returned False, [Log ''failed to send message: %s'']))
      else (Returned True, []))"
| "proxy_socket_sendmsg_stream sfd data control (Send_ok k # rs) total_sent fds_sent =
     (if total_sent < length data then
        emit [Sys_sendmsg sfd (drop total_sent data)
                (if \<not> fds_sent \<and> control \<noteq> None then control else None) (Send_ok k)]
          (proxy_socket_sendmsg_stream sfd data control rs
             (total_sent + min k (length data - total_sent))
             (if control \<noteq> None then True else fds_sent))
      else (Returned True, []))"

fun proxy_socket_sendmsg_seqpacket ::
  "int \<Rightarrow> byte list \<Rightarrow> int list option \<Rightarrow> send_ret list \<Rightarrow> bool outcome \<times> event list" where
  "proxy_socket_sendmsg_seqpacket sfd data control [] = (Blocked, [])"
| "proxy_socket_sendmsg_seqpacket sfd data control (Send_fail e # rs) =
     emit [Sys_sendmsg sfd data control (Send_fail e)]
       (if e = EAGAIN \<or> e = EINTR then proxy_socket_sendmsg_seqpacket sfd data control rs
        else (Returned False, [Log ''failed to send message: %s'']))"
| "proxy_socket_sendmsg_seqpacket sfd data control (Send_ok k # rs) =
     emit [Sys_sendmsg sfd data control (Send_ok k)]
       (if length data = min k (length data) then (Returned True, []) else (Aborted, []))"

definition proxy_socket_sendmsg ::
  "bool \<Rightarrow> proxy_socket \<Rightarrow> byte list \<Rightarrow> int list option \<Rightarrow> send_ret list \<Rightarrow>
   bool outcome \<times> event list" where
  "proxy_socket_sendmsg apple socket data control sends =
     (if apple then proxy_socket_sendmsg_stream (proxy_socket.fd socket) data control sends 0 False
      else proxy_socket_sendmsg_seqpacket (proxy_socket.fd socket) data control sends)"

definition proxy_socket_send_request_internal ::
  "bool \<Rightarrow> proxy_socket \<Rightarrow> byte list option \<Rightarrow> int list option \<Rightarrow> int \<Rightarrow> write_ret list \<Rightarrow>
   send_ret list \<Rightarrow> bool outcome \<times> event list" where
  "proxy_socket_send_request_internal apple socket data fds fd_count writes sends =
     (case data of
        None \<Rightarrow> (Aborted, [])
      | Some bytes \<Rightarrow>
          if length bytes = 0 then (Aborted, [])
          else
            (let send_payload =
               (if fd_count \<noteq> 0 \<and> \<not> (fds \<noteq> None \<and> fd_count \<le> PROXY_SOCKET_MAX_FD_COUNT) then (Aborted, [])
                else if fd_count < 0 then (Aborted, [])
                else
                  emit [Log ''proxy_send_request: sending data size=%zu'']
                    (proxy_socket_sendmsg apple socket bytes
                     (if fd_count \<noteq> 0 then
                        Some (case fds of None \<Rightarrow> [] | Some l \<Rightarrow> take (nat fd_count) l)
                      else None)
                     sends))
             in if apple then
                  emit [Log ''proxy_send_request: sending framing header size=%u fd_count=%u'']
                  (case proxy_socket_write_all (proxy_socket.fd socket) writes
                           (hdr_bytes \<lparr>hdr_size = of_nat (length bytes),
                                       hdr_fd_count = of_int fd_count\<rparr>) of
                     (Returned True, tr) \<Rightarrow> emit tr send_payload
                   | (Returned False, tr) \<Rightarrow> (Returned False, tr)
                   | (Aborted, tr) \<Rightarrow> (Aborted, tr)
                   | (Blocked, tr) \<Rightarrow> (Blocked, tr))
                else send_payload))"

definition proxy_socket_send_request ::
  "bool \<Rightarrow> proxy_socket \<Rightarrow> byte list option \<Rightarrow> write_ret list \<Rightarrow> send_ret list \<Rightarrow>
   bool outcome \<times> event list" where
  "proxy_socket_send_request apple socket data writes sends =
     proxy_socket_send_request_internal apple socket data None 0 writes sends"

definition proxy_socket_send_request_with_fds ::
  "bool \<Rightarrow> proxy_socket \<Rightarrow> byte list option \<Rightarrow> int list option \<Rightarrow> int \<Rightarrow> write_ret list \<Rightarrow>
   send_ret list \<Rightarrow> bool outcome \<times> event list" where
  "proxy_socket_send_request_with_fds apple socket data fds fd_count writes sends =
     proxy_socket_send_request_internal apple socket data fds fd_count writes sends"

text \<open>The server's send: the same code without the two progress lines of the log.\<close>

fun render_socket_sendmsg_stream ::
  "int \<Rightarrow> byte list \<Rightarrow> int list option \<Rightarrow> send_ret list \<Rightarrow> nat \<Rightarrow> bool \<Rightarrow>
   bool outcome \<times> event list" where
  "render_socket_sendmsg_stream sfd data control [] total_sent fds_sent =
     (if total_sent < length data then (Blocked, []) else (Returned True, []))"
| "render_socket_sendmsg_stream sfd data control (Send_fail e # rs) total_sent fds_sent =
     (if total_sent < length data then
        emit [Sys_sendmsg sfd (drop total_sent data)
                (if \<not> fds_sent \<and> control \<noteq> None then control else None) (Send_fail e)]
          (if e = EAGAIN \<or> e = EINTR then
             render_socket_sendmsg_stream sfd data control rs total_sent fds_sent
           else (Returned False, [Log ''failed to send message: %s'']))
      else (Returned True, []))"
| "render_socket_sendmsg_stream sfd data control (Send_ok k # rs) total_sent fds_sent =
     (if total_sent < length data then
        emit [Sys_sendmsg sfd (drop total_sent data)
                (if \<not> fds_sent \<and> control \<noteq> None then control else None) (Send_ok k)]
          (render_socket_sendmsg_stream sfd data control rs
             (total_sent + min k (length data - total_sent))
             (if control \<noteq> None then True else fds_sent))
      else (Returned True, []))"

fun render_socket_sendmsg_seqpacket ::
  "int \<Rightarrow> byte list \<Rightarrow> int list option \<Rightarrow> send_ret list \<Rightarrow> bool outcome \<times> event list" where
  "render_socket_sendmsg_seqpacket sfd data control [] = (Blocked, [])"
| "render_socket_sendmsg_seqpacket sfd data control (Send_fail e # rs) =
     emit [Sys_sendmsg sfd data control (Send_fail e)]
       (if e = EAGAIN \<or> e = EINTR then render_socket_sendmsg_seqpacket sfd data control rs
        else (Returned False, [Log ''failed to send message: %s'']))"
| "render_socket_sendmsg_seqpacket sfd data control (Send_ok k # rs) =
     emit [Sys_sendmsg sfd data control (Send_ok k)]
       (if length data = min k (length data) then (Returned True, []) else (Aborted, []))"

definition render_socket_sendmsg ::
  "bool \<Rightarrow> render_socket \<Rightarrow> byte list \<Rightarrow> int list option \<Rightarrow> send_ret list \<Rightarrow>
   bool outcome \<times> event list" where
  "render_socket_sendmsg apple socket data control sends =
     (if apple then render_socket_sendmsg_stream (render_socket.fd socket) data control sends 0 False
      else render_socket_sendmsg_seqpacket (render_socket.fd socket) data control sends)"

definition render_socket_send_reply_internal ::
  "bool \<Rightarrow> render_socket \<Rightarrow> byte list option \<Rightarrow> int list option \<Rightarrow> int \<Rightarrow> write_ret list \<Rightarrow>
   send_ret list \<Rightarrow> bool outcome \<times> event list" where
  "render_socket_send_reply_internal apple socket data fds fd_count writes sends =
     (case data of
        None \<Rightarrow> (Aborted, [])
      | Some bytes \<Rightarrow>
          if length bytes = 0 then (Aborted, [])
          else
            (let send_payload =
               (if fd_count \<noteq> 0 \<and> \<not> (fds \<noteq> None \<and> fd_count \<le> RENDER_SOCKET_MAX_FD_COUNT) then (Aborted, [])
                else if fd_count < 0 then (Aborted, [])
                else
                  render_socket_sendmsg apple socket bytes
                     (if fd_count \<noteq> 0 then
                        Some (case fds of None \<Rightarrow> [] | Some l \<Rightarrow> take (nat fd_count) l)
                      else None)
                     sends)
             in if apple then
                  (case render_socket_write_all (render_socket.fd socket) writes
                           (hdr_bytes \<lparr>hdr_size = of_nat (length bytes),
                                       hdr_fd_count = of_int fd_count\<rparr>) of
                     (Returned True, tr) \<Rightarrow> emit tr send_payload
                   | (Returned False, tr) \<Rightarrow> (Returned False, tr)
                   | (Aborted, tr) \<Rightarrow> (Aborted, tr)
                   | (Blocked, tr) \<Rightarrow> (Blocked, tr))
                else send_payload))"

definition render_socket_send_reply ::
  "bool \<Rightarrow> render_socket \<Rightarrow> byte list option \<Rightarrow> write_ret list \<Rightarrow> send_ret list \<Rightarrow>
   bool outcome \<times> event list" where
  "render_socket_send_reply apple socket data writes sends =
     render_socket_send_reply_internal apple socket data None 0 writes sends"

definition render_socket_send_reply_with_fds ::
  "bool \<Rightarrow> render_socket \<Rightarrow> byte list option \<Rightarrow> int list option \<Rightarrow> int \<Rightarrow> write_ret list \<Rightarrow>
   send_ret list \<Rightarrow> bool outcome \<times> event list" where
  "render_socket_send_reply_with_fds apple socket data fds fd_count writes sends =
     render_socket_send_reply_internal apple socket data fds fd_count writes sends"

section \<open>Vocabulary of the properties\<close>

text \<open>The results of a system call that the code takes as transient: \<^verbatim>\<open>EINTR\<close> and
  \<^verbatim>\<open>EAGAIN\<close>.\<close>

fun read_transient :: "read_ret \<Rightarrow> bool" where
  "read_transient (Read_fail e) = (e = EINTR \<or> e = EAGAIN)"
| "read_transient (Read_ok bs) = False"

fun write_transient :: "write_ret \<Rightarrow> bool" where
  "write_transient (Write_fail e) = (e = EINTR \<or> e = EAGAIN)"
| "write_transient (Write_ok k) = False"

fun send_transient :: "send_ret \<Rightarrow> bool" where
  "send_transient (Send_fail e) = (e = EINTR \<or> e = EAGAIN)"
| "send_transient (Send_ok k) = False"

fun recv_transient :: "recv_ret \<Rightarrow> bool" where
  "recv_transient (Recv_fail e) = (e = EINTR \<or> e = EAGAIN)"
| "recv_transient (Recv_ok m) = False"

fun poll_transient :: "poll_ret \<Rightarrow> bool" where
  "poll_transient (Poll_fail e) = (e = EINTR \<or> e = EAGAIN)"
| "poll_transient (Poll_ok n revents) = False"



text \<open>The control blocks of the \<^verbatim>\<open>sendmsg\<close> calls that the kernel accepted (those that
  returned a byte count), in order: the calls that sent a piece of the payload.\<close>

fun accepted_controls :: "event list \<Rightarrow> int list option list" where
  "accepted_controls [] = []"
| "accepted_controls (Sys_sendmsg d bs control (Send_ok k) # tr) =
     control # accepted_controls tr"
| "accepted_controls (ev # tr) = accepted_controls tr"

text \<open>The descriptors that the messages of a \<^verbatim>\<open>recvmsg\<close> script carry.\<close>

fun delivered_fds :: "bool \<Rightarrow> recv_ret list \<Rightarrow> int list" where
  "delivered_fds apple [] = []"
| "delivered_fds apple (Recv_fail e # rs) = delivered_fds apple rs"
| "delivered_fds apple (Recv_ok m # rs) =
     get_received_fds apple (rx_control m) @ delivered_fds apple rs"

text \<open>What a trace puts on the wire: the bytes that each \<^verbatim>\<open>write\<close> and \<^verbatim>\<open>sendmsg\<close> call
  got accepted, in order; and, for the native framing, the datagrams that were sent.\<close>

fun wire_bytes :: "event list \<Rightarrow> byte list" where
  "wire_bytes [] = []"
| "wire_bytes (Sys_write d bs (Write_ok k) # tr) = take k bs @ wire_bytes tr"
| "wire_bytes (Sys_sendmsg d bs c (Send_ok k) # tr) = take k bs @ wire_bytes tr"
| "wire_bytes (ev # tr) = wire_bytes tr"

fun sent_datagrams :: "event list \<Rightarrow> byte list list" where
  "sent_datagrams [] = []"
| "sent_datagrams (Sys_sendmsg d bs c (Send_ok k) # tr) = take k bs # sent_datagrams tr"
| "sent_datagrams (ev # tr) = sent_datagrams tr"

text \<open>A \<^verbatim>\<open>read\<close> (\<^verbatim>\<open>recvmsg\<close>) script delivers a byte stream when its successful
  results are non-empty untruncated pieces that concatenate to the stream, with only
  transient failures between them; a \<^verbatim>\<open>recvmsg\<close> script delivers a datagram when its
  first successful result is that datagram, whole.\<close>

fun reads_deliver :: "read_ret list \<Rightarrow> byte list \<Rightarrow> bool" where
  "reads_deliver [] w = (w = [])"
| "reads_deliver (Read_fail e # rs) w = ((e = EINTR \<or> e = EAGAIN) \<and> reads_deliver rs w)"
| "reads_deliver (Read_ok bs # rs) w =
     (bs \<noteq> [] \<and> take (length bs) w = bs \<and> reads_deliver rs (drop (length bs) w))"

fun recvs_deliver :: "recv_ret list \<Rightarrow> byte list \<Rightarrow> bool" where
  "recvs_deliver [] w = (w = [])"
| "recvs_deliver (Recv_fail e # rs) w = ((e = EINTR \<or> e = EAGAIN) \<and> recvs_deliver rs w)"
| "recvs_deliver (Recv_ok m # rs) w =
     (rx_data m \<noteq> [] \<and> \<not> rx_trunc m \<and> \<not> rx_ctrunc m \<and>
      take (length (rx_data m)) w = rx_data m \<and>
      recvs_deliver rs (drop (length (rx_data m)) w))"

fun recvs_deliver_datagram :: "recv_ret list \<Rightarrow> byte list \<Rightarrow> bool" where
  "recvs_deliver_datagram [] d = False"
| "recvs_deliver_datagram (Recv_fail e # rs) d =
     ((e = EINTR \<or> e = EAGAIN) \<and> recvs_deliver_datagram rs d)"
| "recvs_deliver_datagram (Recv_ok m # rs) d =
     (rx_data m = d \<and> \<not> rx_trunc m \<and> \<not> rx_ctrunc m)"

text \<open>The peer's scripts deliver what a send trace put on the wire: in the stream framing
  the first 8 bytes through \<^verbatim>\<open>read\<close> and the others through \<^verbatim>\<open>recvmsg\<close>, in the native
  framing the one datagram.\<close>

definition wire_delivers :: "bool \<Rightarrow> event list \<Rightarrow> read_ret list \<Rightarrow> recv_ret list \<Rightarrow> bool" where
  "wire_delivers apple tr reads recvs =
     (if apple then
        reads_deliver reads (take 8 (wire_bytes tr)) \<and>
        recvs_deliver recvs (drop 8 (wire_bytes tr))
      else
        (case sent_datagrams tr of
           [d] \<Rightarrow> recvs_deliver_datagram recvs d
         | _ \<Rightarrow> False))"

section \<open>The stream header\<close>

lemma un_le32_le32: "un_le32 (le32 w) = w"
  unfolding un_le32_def le32_def
proof (rule bit_word_eqI)
  fix n :: nat
  assume "n < LENGTH(32)"
  then have n: "n < 32" by simp
  have a: "24 + (n - 24) = n" if "\<not> n < 24" using that by simp
  have b: "16 + (n - 16) = n" if "\<not> n < 16" using that by simp
  have c: "8 + (n - 8) = n" if "\<not> n < 8" using that by simp
  consider "n < 8" | "8 \<le> n" "n < 16" | "16 \<le> n" "n < 24" | "24 \<le> n"
    by linarith
  then show "bit (ucast ([ucast w, ucast (drop_bit 8 w), ucast (drop_bit 16 w),
          ucast (drop_bit 24 w)] ! 0 :: byte) OR
        push_bit 8 (ucast ([ucast w, ucast (drop_bit 8 w), ucast (drop_bit 16 w),
          ucast (drop_bit 24 w)] ! 1 :: byte)) OR
        push_bit 16 (ucast ([ucast w, ucast (drop_bit 8 w), ucast (drop_bit 16 w),
          ucast (drop_bit 24 w)] ! 2 :: byte)) OR
        push_bit 24 (ucast ([ucast w, ucast (drop_bit 8 w), ucast (drop_bit 16 w),
          ucast (drop_bit 24 w)] ! 3 :: byte)) :: 32 word) n = bit w n"
    using n by cases (auto simp: bit_simps a b c)
qed

lemma length_le32: "length (le32 w) = 4"
  by (simp add: le32_def)

lemma length_hdr_bytes: "length (hdr_bytes h) = 8"
  by (simp add: hdr_bytes_def length_le32)

lemma bytes_hdr_hdr_bytes: "bytes_hdr (hdr_bytes h) = h"
  by (simp add: bytes_hdr_def hdr_bytes_def length_le32 un_le32_le32)

section \<open>Capability probe\<close>

text \<open>
  C5, as the code has it. The probe answers \<open>true\<close> exactly when the type query succeeds
  and the type is \<^verbatim>\<open>SOCK_SEQPACKET\<close>, or, in the stream-framing build, \<^verbatim>\<open>SOCK_STREAM\<close>:
  that build accepts the byte-stream socket it frames by hand. A failed query gives
  \<open>false\<close>; the client's probe logs it, the server's probe logs nothing.
\<close>

theorem is_seqpacket_result:
  "fst (proxy_socket_is_seqpacket apple sfd r) =
     (\<exists>t. r = Sockopt_ok t \<and> (t = SOCK_SEQPACKET \<or> (apple \<and> t = SOCK_STREAM)))
   \<and> fst (render_socket_is_seqpacket apple sfd r) = fst (proxy_socket_is_seqpacket apple sfd r)
   \<and> snd (proxy_socket_is_seqpacket apple sfd r) =
       (case r of Sockopt_fail e \<Rightarrow> [Log ''fd %d err %s''] | Sockopt_ok t \<Rightarrow> [])
   \<and> snd (render_socket_is_seqpacket apple sfd r) = []"
  by (auto simp: proxy_socket_is_seqpacket_def render_socket_is_seqpacket_def
      split: sockopt_ret.splits)

text \<open>
  C5 as stated fails: in the stream-framing build, which has no socket type that keeps
  message boundaries, the probe answers \<open>true\<close> for a \<^verbatim>\<open>SOCK_STREAM\<close> socket.
\<close>

theorem is_seqpacket_stream_counterexample:
  "proxy_socket_is_seqpacket True 3 (Sockopt_ok SOCK_STREAM) = (True, [])
   \<and> render_socket_is_seqpacket True 3 (Sockopt_ok SOCK_STREAM) = (True, [])"
  by (simp add: proxy_socket_is_seqpacket_def render_socket_is_seqpacket_def)

section \<open>Pair factory\<close>

lemma cloexec_bit_set: "(flags OR FD_CLOEXEC) AND FD_CLOEXEC \<noteq> 0"
proof -
  have "odd ((flags OR 1) AND (1::int))"
    by (simp add: even_and_iff even_or_iff)
  then show ?thesis
    unfolding FD_CLOEXEC_def by (metis even_zero)
qed

text \<open>
  C4, as the code has it. A successful \<^verbatim>\<open>proxy_socket_pair\<close> never marks \<open>out_fds[1]\<close>
  close-on-exec; it marks \<open>out_fds[0]\<close> in the stream-framing build only (and there only
  when the flags of the descriptor can be read), and marks nothing in the native build.
  A successful \<^verbatim>\<open>render_socket_pair\<close> marks both descriptors in both builds.
\<close>

theorem socket_pair_cloexec:
  "fst (proxy_socket_pair apple getfd (Pair_ok a b)) = Some (a, b)
   \<and> cloexec_marked (snd (proxy_socket_pair apple getfd (Pair_ok a b))) =
       (if apple \<and> getfd a \<ge> 0 then [a] else [])
   \<and> fst (render_socket_pair apple getfd (Pair_ok a b)) = Some (a, b)
   \<and> cloexec_marked (snd (render_socket_pair apple getfd (Pair_ok a b))) =
       (if apple then (if getfd a \<ge> 0 then [a] else []) @ (if getfd b \<ge> 0 then [b] else [])
        else [a, b])"
  by (auto simp: proxy_socket_pair_def render_socket_pair_def set_cloexec_def Let_def
      cloexec_bit_set)

text \<open>
  C4 as stated fails: in the native build the client's factory leaves the descriptor that
  stays (3) unmarked, and the server's factory marks both descriptors (3 and 4) in both
  builds.
\<close>

theorem socket_pair_counterexample:
  "cloexec_marked (snd (proxy_socket_pair False (\<lambda>d. 0) (Pair_ok 3 4))) = []
   \<and> cloexec_marked (snd (render_socket_pair False (\<lambda>d. 0) (Pair_ok 3 4))) = [3, 4]
   \<and> cloexec_marked (snd (render_socket_pair True (\<lambda>d. 0) (Pair_ok 3 4))) = [3, 4]"
  by (simp add: proxy_socket_pair_def render_socket_pair_def set_cloexec_def FD_CLOEXEC_def)

section \<open>Sending\<close>

text \<open>
  C9. A send with a null payload pointer or a payload of size 0 fails the
  \<^verbatim>\<open>assert(data && size)\<close> that opens both send functions: the call aborts before any
  system call, so nothing is written to the socket (the trace is empty). This holds for
  both roles, both builds, with or without descriptors.
\<close>

theorem send_empty_rejected:
  assumes "data = None \<or> data = Some []"
  shows "proxy_socket_send_request_internal apple ps data fds fd_count writes sends = (Aborted, [])
       \<and> render_socket_send_reply_internal apple rs data fds fd_count writes sends = (Aborted, [])
       \<and> proxy_socket_send_request apple ps data writes sends = (Aborted, [])
       \<and> render_socket_send_reply apple rs data writes sends = (Aborted, [])"
  using assms
  by (auto simp: proxy_socket_send_request_internal_def render_socket_send_reply_internal_def
      proxy_socket_send_request_def render_socket_send_reply_def)

theorem send_empty_rejected_witness:
  "proxy_socket_send_request_internal True \<lparr>proxy_socket.fd = 3\<rparr> (Some []) None 0
      [Write_ok 8] [Send_ok 1] = (Aborted, [])
   \<and> render_socket_send_reply_internal False \<lparr>render_socket.fd = 4\<rparr> (Some []) None 0
      [Write_ok 8] [Send_ok 1] = (Aborted, [])
   \<and> proxy_socket_send_request True \<lparr>proxy_socket.fd = 3\<rparr> (Some []) [Write_ok 8] [Send_ok 1]
      = (Aborted, [])
   \<and> render_socket_send_reply False \<lparr>render_socket.fd = 4\<rparr> (Some []) [Write_ok 8] [Send_ok 1]
      = (Aborted, [])"
  using send_empty_rejected [of "Some []" True "\<lparr>proxy_socket.fd = 3\<rparr>" None 0
      "[Write_ok 8]" "[Send_ok 1]" "\<lparr>render_socket.fd = 4\<rparr>"]
    send_empty_rejected [of "Some []" False "\<lparr>proxy_socket.fd = 3\<rparr>" None 0
      "[Write_ok 8]" "[Send_ok 1]" "\<lparr>render_socket.fd = 4\<rparr>"]
  by simp

section \<open>Transient errors and end of file\<close>

lemma fst_emit [simp]: "fst (emit evs p) = fst p"
  by (cases p) simp

lemma snd_emit [simp]: "snd (emit evs p) = evs @ snd p"
  by (cases p) simp

lemma proxy_read_all_done [simp]:
  "proxy_socket_read_all rs buf 0 = (Returned (True, buf), [])"
  by (cases "(rs, buf, 0::nat)" rule: proxy_socket_read_all.cases) auto

lemma render_read_all_done [simp]:
  "render_socket_read_all rs buf 0 = (Returned (True, buf), [])"
  by (cases "(rs, buf, 0::nat)" rule: render_socket_read_all.cases) auto

lemma proxy_write_all_done [simp]:
  "proxy_socket_write_all d rs [] = (Returned True, [])"
  by (cases "(d, rs, [] :: byte list)" rule: proxy_socket_write_all.cases) auto

lemma render_write_all_done [simp]:
  "render_socket_write_all d rs [] = (Returned True, [])"
  by (cases "(d, rs, [] :: byte list)" rule: render_socket_write_all.cases) auto

lemma proxy_sendmsg_stream_done [simp]:
  "\<not> tot < length data \<Longrightarrow>
   proxy_socket_sendmsg_stream d data control rs tot fds_sent = (Returned True, [])"
  by (cases "(d, data, control, rs, tot, fds_sent)" rule: proxy_socket_sendmsg_stream.cases) auto

lemma render_sendmsg_stream_done [simp]:
  "\<not> tot < length data \<Longrightarrow>
   render_socket_sendmsg_stream d data control rs tot fds_sent = (Returned True, [])"
  by (cases "(d, data, control, rs, tot, fds_sent)" rule: render_socket_sendmsg_stream.cases) auto

lemma proxy_read_all_filter:
  "proxy_socket_read_all (filter (\<lambda>r. \<not> read_transient r) rs) buf remaining =
   proxy_socket_read_all rs buf remaining"
  by (induction rs buf remaining rule: proxy_socket_read_all.induct) (auto simp: Let_def)

lemma render_read_all_filter:
  "render_socket_read_all (filter (\<lambda>r. \<not> read_transient r) rs) buf remaining =
   render_socket_read_all rs buf remaining"
  by (induction rs buf remaining rule: render_socket_read_all.induct) (auto simp: Let_def)

lemma proxy_write_all_filter:
  "fst (proxy_socket_write_all d (filter (\<lambda>r. \<not> write_transient r) rs) buf) =
   fst (proxy_socket_write_all d rs buf)"
  by (induction d rs buf rule: proxy_socket_write_all.induct) auto

lemma render_write_all_filter:
  "fst (render_socket_write_all d (filter (\<lambda>r. \<not> write_transient r) rs) buf) =
   fst (render_socket_write_all d rs buf)"
  by (induction d rs buf rule: render_socket_write_all.induct) auto

lemma proxy_sendmsg_stream_filter:
  "fst (proxy_socket_sendmsg_stream d data control (filter (\<lambda>r. \<not> send_transient r) rs) tot fds_sent) =
   fst (proxy_socket_sendmsg_stream d data control rs tot fds_sent)"
  by (induction d data control rs tot fds_sent rule: proxy_socket_sendmsg_stream.induct) auto

lemma proxy_sendmsg_seqpacket_filter:
  "fst (proxy_socket_sendmsg_seqpacket d data control (filter (\<lambda>r. \<not> send_transient r) rs)) =
   fst (proxy_socket_sendmsg_seqpacket d data control rs)"
  by (induction d data control rs rule: proxy_socket_sendmsg_seqpacket.induct) auto

lemma min_eq_0_nat: "min (a::nat) b = 0 \<longleftrightarrow> a = 0 \<or> b = 0"
  by (auto simp: min_def)

lemma proxy_recvmsg_filter:
  "proxy_socket_recvmsg apple getfd iov_len ctl (filter (\<lambda>r. \<not> recv_transient r) rs) =
   (case proxy_socket_recvmsg apple getfd iov_len ctl rs of
      (r, tr, rest) \<Rightarrow> (r, tr, filter (\<lambda>r. \<not> recv_transient r) rest))"
  by (induction apple getfd iov_len ctl rs rule: proxy_socket_recvmsg.induct) (auto simp: Let_def)

lemma proxy_loop_done:
  "\<not> length buf < sz \<Longrightarrow>
   proxy_socket_receive_reply_loop getfd sz fds_ok max_fd_count out_ok rs buf ctl fds cnt =
   (Returned (Some (buf, fds, cnt)), [])"
  by (subst proxy_socket_receive_reply_loop.simps) simp

lemma proxy_loop_step:
  "length buf < sz \<Longrightarrow>
   proxy_socket_recvmsg True getfd (sz - length buf) ctl rs =
     (Returned (Some (chunk, cmsg)), tr, rest) \<Longrightarrow>
   proxy_socket_receive_reply_loop getfd sz fds_ok max_fd_count out_ok rs buf ctl fds cnt =
   emit tr (proxy_socket_receive_reply_loop getfd sz fds_ok max_fd_count out_ok rest
     (buf @ chunk) None
     (if ctl \<noteq> None \<and> fds_ok then
        take (nat (min (int (length (get_received_fds True cmsg))) max_fd_count))
          (get_received_fds True cmsg)
      else fds)
     (if ctl \<noteq> None \<and> out_ok
      then Some (min (int (length (get_received_fds True cmsg))) max_fd_count)
      else cnt))"
  by (subst proxy_socket_receive_reply_loop.simps) (simp add: Let_def min_def)

lemma proxy_loop_fail:
  "length buf < sz \<Longrightarrow>
   proxy_socket_recvmsg True getfd (sz - length buf) ctl rs = (Returned None, tr, rest) \<Longrightarrow>
   proxy_socket_receive_reply_loop getfd sz fds_ok max_fd_count out_ok rs buf ctl fds cnt =
   (Returned None, tr)"
  by (subst proxy_socket_receive_reply_loop.simps) simp

lemma proxy_loop_blocked:
  "length buf < sz \<Longrightarrow>
   proxy_socket_recvmsg True getfd (sz - length buf) ctl rs = (Blocked, tr, rest) \<Longrightarrow>
   proxy_socket_receive_reply_loop getfd sz fds_ok max_fd_count out_ok rs buf ctl fds cnt =
   (Blocked, tr)"
  by (subst proxy_socket_receive_reply_loop.simps) simp

lemma proxy_loop_aborted:
  "length buf < sz \<Longrightarrow>
   proxy_socket_recvmsg True getfd (sz - length buf) ctl rs = (Aborted, tr, rest) \<Longrightarrow>
   proxy_socket_receive_reply_loop getfd sz fds_ok max_fd_count out_ok rs buf ctl fds cnt =
   (Aborted, tr)"
  by (subst proxy_socket_receive_reply_loop.simps) simp

lemma no_buffer_no_overrun [simp]:
  "\<not> cmsg_buf_overrun apple n (CMSG_FIRSTHDR apple None m)"
  by (simp add: cmsg_buf_overrun_def CMSG_FIRSTHDR_def)


lemma proxy_receive_loop_filter:
  "proxy_socket_receive_reply_loop getfd sz fds_ok max_fd_count out_ok
     (filter (\<lambda>r. \<not> recv_transient r) rs) buf ctl fds cnt =
   proxy_socket_receive_reply_loop getfd sz fds_ok max_fd_count out_ok rs buf ctl fds cnt"
proof (induction rs arbitrary: buf ctl fds cnt rule: length_induct)
  case (1 rs)
  show ?case
  proof (cases "length buf < sz")
    case False
    then show ?thesis by (simp add: proxy_loop_done)
  next
    case True
    obtain r tr rest where rv:
      "proxy_socket_recvmsg True getfd (sz - length buf) ctl rs = (r, tr, rest)"
      by (cases "proxy_socket_recvmsg True getfd (sz - length buf) ctl rs") auto
    then have rvf: "proxy_socket_recvmsg True getfd (sz - length buf) ctl
        (filter (\<lambda>r. \<not> recv_transient r) rs) = (r, tr, filter (\<lambda>r. \<not> recv_transient r) rest)"
      by (simp add: proxy_recvmsg_filter)
    show ?thesis
    proof (cases r)
      case Blocked
      then show ?thesis using True rv rvf by (simp add: proxy_loop_blocked)
    next
      case Aborted
      then show ?thesis using True rv rvf by (simp add: proxy_loop_aborted)
    next
      case (Returned x)
      show ?thesis
      proof (cases x)
        case None
        then show ?thesis using True rv rvf Returned by (simp add: proxy_loop_fail)
      next
        case (Some p)
        obtain chunk cmsg where p: "p = (chunk, cmsg)" by (cases p)
        have "length rest < length rs"
          using rv Returned by (auto dest: proxy_socket_recvmsg_rest)
        then show ?thesis
          using True rv rvf Returned Some p "1.IH"
          by (simp add: proxy_loop_step)
      qed
    qed
  qed
qed


lemma render_recvmsg_stream_eq:
  "render_socket_recvmsg True getfd iov_len ctl rs = proxy_socket_recvmsg True getfd iov_len ctl rs"
proof (induction rs)
  case Nil
  then show ?case by simp
next
  case (Cons a rs)
  then show ?case
    by (cases a)
       (auto simp: Let_def min_eq_0_nat PROXY_SOCKET_MAX_FD_COUNT_def
          RENDER_SOCKET_MAX_FD_COUNT_def)
qed

lemma render_loop_eq:
  "render_socket_receive_request_loop getfd sz fds_ok max_fd_count out_ok rs buf ctl fds cnt =
   proxy_socket_receive_reply_loop getfd sz fds_ok max_fd_count out_ok rs buf ctl fds cnt"
proof (induction rs arbitrary: buf ctl fds cnt rule: length_induct)
  case (1 rs)
  show ?case
  proof (cases "length buf < sz")
    case False
    then show ?thesis
      by (subst render_socket_receive_request_loop.simps) (simp add: proxy_loop_done)
  next
    case True
    obtain r tr rest where rv:
      "proxy_socket_recvmsg True getfd (sz - length buf) ctl rs = (r, tr, rest)"
      by (cases "proxy_socket_recvmsg True getfd (sz - length buf) ctl rs") auto
    show ?thesis
    proof (cases r)
      case Blocked
      then show ?thesis using True rv
        by (subst render_socket_receive_request_loop.simps)
           (simp add: proxy_loop_blocked render_recvmsg_stream_eq)
    next
      case Aborted
      then show ?thesis using True rv
        by (subst render_socket_receive_request_loop.simps)
           (simp add: proxy_loop_aborted render_recvmsg_stream_eq)
    next
      case (Returned x)
      show ?thesis
      proof (cases x)
        case None
        then show ?thesis using True rv Returned
          by (subst render_socket_receive_request_loop.simps)
             (simp add: proxy_loop_fail render_recvmsg_stream_eq)
      next
        case (Some p)
        obtain chunk cmsg where p: "p = (chunk, cmsg)" by (cases p)
        have "length rest < length rs"
          using rv Returned by (auto dest: proxy_socket_recvmsg_rest)
        then show ?thesis
          using True rv Returned Some p "1.IH"
          by (subst render_socket_receive_request_loop.simps)
             (simp add: proxy_loop_step render_recvmsg_stream_eq Let_def min_def)
      qed
    qed
  qed
qed

lemma render_recvmsg_filter:
  "render_socket_recvmsg apple getfd iov_len ctl (filter (\<lambda>r. \<not> recv_transient r) rs) =
   (case render_socket_recvmsg apple getfd iov_len ctl rs of
      (r, tr, rest) \<Rightarrow> (r, tr, filter (\<lambda>r. \<not> recv_transient r) rest))"
  by (induction apple getfd iov_len ctl rs rule: render_socket_recvmsg.induct)
     (auto simp: Let_def min_eq_0_nat)

lemma render_sendmsg_stream_filter:
  "fst (render_socket_sendmsg_stream d data control (filter (\<lambda>r. \<not> send_transient r) rs) tot fds_sent) =
   fst (render_socket_sendmsg_stream d data control rs tot fds_sent)"
  by (induction d data control rs tot fds_sent rule: render_socket_sendmsg_stream.induct) auto

lemma render_sendmsg_seqpacket_filter:
  "fst (render_socket_sendmsg_seqpacket d data control (filter (\<lambda>r. \<not> send_transient r) rs)) =
   fst (render_socket_sendmsg_seqpacket d data control rs)"
  by (induction d data control rs rule: render_socket_sendmsg_seqpacket.induct) auto

lemma is_connected_filter:
  "proxy_socket_is_connected ps (filter (\<lambda>r. \<not> poll_transient r) rs) =
   proxy_socket_is_connected ps rs"
  by (induction ps rs rule: proxy_socket_is_connected.induct) auto

lemma proxy_send_filter:
  "fst (proxy_socket_send_request_internal apple ps data fds fd_count
          (filter (\<lambda>r. \<not> write_transient r) writes) (filter (\<lambda>r. \<not> send_transient r) sends)) =
   fst (proxy_socket_send_request_internal apple ps data fds fd_count writes sends)"
proof (cases data)
  case None
  then show ?thesis by (simp add: proxy_socket_send_request_internal_def)
next
  case (Some bytes)
  define h where "h = hdr_bytes \<lparr>hdr_size = of_nat (length bytes), hdr_fd_count = of_int fd_count\<rparr>"
  obtain ow tw where W:
    "proxy_socket_write_all (proxy_socket.fd ps) writes h = (ow, tw)"
    by (cases "proxy_socket_write_all (proxy_socket.fd ps) writes h") auto
  obtain tw' where Wf:
    "proxy_socket_write_all (proxy_socket.fd ps) (filter (\<lambda>r. \<not> write_transient r) writes) h
       = (ow, tw')"
    using proxy_write_all_filter [of "proxy_socket.fd ps" writes h] W
    by (cases "proxy_socket_write_all (proxy_socket.fd ps)
          (filter (\<lambda>r. \<not> write_transient r) writes) h") auto
  have s: "fst (proxy_socket_sendmsg ap ps b c (filter (\<lambda>r. \<not> send_transient r) sends)) =
      fst (proxy_socket_sendmsg ap ps b c sends)" for ap b c
    by (simp add: proxy_socket_sendmsg_def proxy_sendmsg_stream_filter
        proxy_sendmsg_seqpacket_filter)
  show ?thesis
  proof (cases ow)
    case (Returned b)
    then show ?thesis
      using Some W Wf s
      by (cases b) (simp_all add: proxy_socket_send_request_internal_def Let_def h_def)
  next
    case Aborted
    then show ?thesis
      using Some W Wf s by (simp add: proxy_socket_send_request_internal_def Let_def h_def)
  next
    case Blocked
    then show ?thesis
      using Some W Wf s by (simp add: proxy_socket_send_request_internal_def Let_def h_def)
  qed
qed

lemma render_send_filter:
  "fst (render_socket_send_reply_internal apple rsk data fds fd_count
          (filter (\<lambda>r. \<not> write_transient r) writes) (filter (\<lambda>r. \<not> send_transient r) sends)) =
   fst (render_socket_send_reply_internal apple rsk data fds fd_count writes sends)"
proof (cases data)
  case None
  then show ?thesis by (simp add: render_socket_send_reply_internal_def)
next
  case (Some bytes)
  define h where "h = hdr_bytes \<lparr>hdr_size = of_nat (length bytes), hdr_fd_count = of_int fd_count\<rparr>"
  obtain ow tw where W:
    "render_socket_write_all (render_socket.fd rsk) writes h = (ow, tw)"
    by (cases "render_socket_write_all (render_socket.fd rsk) writes h") auto
  obtain tw' where Wf:
    "render_socket_write_all (render_socket.fd rsk) (filter (\<lambda>r. \<not> write_transient r) writes) h
       = (ow, tw')"
    using render_write_all_filter [of "render_socket.fd rsk" writes h] W
    by (cases "render_socket_write_all (render_socket.fd rsk)
          (filter (\<lambda>r. \<not> write_transient r) writes) h") auto
  have s: "fst (render_socket_sendmsg ap rsk b c (filter (\<lambda>r. \<not> send_transient r) sends)) =
      fst (render_socket_sendmsg ap rsk b c sends)" for ap b c
    by (simp add: render_socket_sendmsg_def render_sendmsg_stream_filter
        render_sendmsg_seqpacket_filter)
  show ?thesis
  proof (cases ow)
    case (Returned b)
    then show ?thesis
      using Some W Wf s
      by (cases b) (simp_all add: render_socket_send_reply_internal_def Let_def h_def)
  next
    case Aborted
    then show ?thesis
      using Some W Wf s by (simp add: render_socket_send_reply_internal_def Let_def h_def)
  next
    case Blocked
    then show ?thesis
      using Some W Wf s by (simp add: render_socket_send_reply_internal_def Let_def h_def)
  qed
qed

lemma proxy_receive_filter:
  "proxy_socket_receive_reply_internal apple getfd ps data sz fds_ok max_fd_count out_ok
     (filter (\<lambda>r. \<not> read_transient r) reads) (filter (\<lambda>r. \<not> recv_transient r) recvs) =
   proxy_socket_receive_reply_internal apple getfd ps data sz fds_ok max_fd_count out_ok
     reads recvs"
proof -
  obtain r tr rest where rv:
    "proxy_socket_recvmsg False getfd sz (native_msg_control max_fd_count) recvs = (r, tr, rest)"
    by (cases "proxy_socket_recvmsg False getfd sz (native_msg_control max_fd_count) recvs") auto
  then have rvf: "proxy_socket_recvmsg False getfd sz (native_msg_control max_fd_count)
      (filter (\<lambda>r. \<not> recv_transient r) recvs) = (r, tr, filter (\<lambda>r. \<not> recv_transient r) rest)"
    by (simp add: proxy_recvmsg_filter)
  show ?thesis
    unfolding proxy_socket_receive_reply_internal_def proxy_read_all_filter
      proxy_receive_loop_filter rvf rv
    by (simp split: outcome.splits option.splits)
qed

lemma render_receive_loop_filter:
  "render_socket_receive_request_loop getfd sz fds_ok max_fd_count out_ok
     (filter (\<lambda>r. \<not> recv_transient r) rs) buf ctl fds cnt =
   render_socket_receive_request_loop getfd sz fds_ok max_fd_count out_ok rs buf ctl fds cnt"
  by (simp add: render_loop_eq proxy_receive_loop_filter)

lemma render_receive_filter:
  "render_socket_receive_request_internal apple getfd rsk data max_size fds_ok max_fd_count out_ok
     (filter (\<lambda>r. \<not> read_transient r) reads) (filter (\<lambda>r. \<not> recv_transient r) recvs) =
   render_socket_receive_request_internal apple getfd rsk data max_size fds_ok max_fd_count out_ok
     reads recvs"
proof -
  obtain r tr rest where rv:
    "render_socket_recvmsg False getfd max_size (native_msg_control max_fd_count) recvs = (r, tr, rest)"
    by (cases "render_socket_recvmsg False getfd max_size (native_msg_control max_fd_count) recvs") auto
  then have rvf: "render_socket_recvmsg False getfd max_size (native_msg_control max_fd_count)
      (filter (\<lambda>r. \<not> recv_transient r) recvs) = (r, tr, filter (\<lambda>r. \<not> recv_transient r) rest)"
    by (simp add: render_recvmsg_filter)
  show ?thesis
    unfolding render_socket_receive_request_internal_def render_read_all_filter
      render_receive_loop_filter rvf rv
    by (simp split: outcome.splits option.splits)
qed

text \<open>
  C8. A result \<^verbatim>\<open>EINTR\<close> or \<^verbatim>\<open>EAGAIN\<close> of \<^verbatim>\<open>read\<close>, \<^verbatim>\<open>write\<close>, \<^verbatim>\<open>sendmsg\<close>,
  \<^verbatim>\<open>recvmsg\<close> or \<^verbatim>\<open>poll\<close> never reaches the caller: every send, receive and liveness
  probe returns what it returns when all those results are struck from the scripts,
  however many there are (the call is made again each time). A \<^verbatim>\<open>read\<close> that gives 0
  bytes while bytes are still missing makes \<^verbatim>\<open>read_all\<close> return \<open>false\<close> at once,
  whatever the kernel would have given next.
\<close>

theorem transient_errors_retried:
  "fst (proxy_socket_send_request_internal apple ps data fds fd_count
          (filter (\<lambda>r. \<not> write_transient r) writes) (filter (\<lambda>r. \<not> send_transient r) sends)) =
   fst (proxy_socket_send_request_internal apple ps data fds fd_count writes sends)
   \<and> fst (render_socket_send_reply_internal apple rsk data fds fd_count
          (filter (\<lambda>r. \<not> write_transient r) writes) (filter (\<lambda>r. \<not> send_transient r) sends)) =
     fst (render_socket_send_reply_internal apple rsk data fds fd_count writes sends)
   \<and> proxy_socket_receive_reply_internal apple getfd ps buf_ok sz fds_ok max_fd_count out_ok
       (filter (\<lambda>r. \<not> read_transient r) reads) (filter (\<lambda>r. \<not> recv_transient r) recvs) =
     proxy_socket_receive_reply_internal apple getfd ps buf_ok sz fds_ok max_fd_count out_ok
       reads recvs
   \<and> render_socket_receive_request_internal apple getfd rsk buf_ok sz fds_ok max_fd_count out_ok
       (filter (\<lambda>r. \<not> read_transient r) reads) (filter (\<lambda>r. \<not> recv_transient r) recvs) =
     render_socket_receive_request_internal apple getfd rsk buf_ok sz fds_ok max_fd_count out_ok
       reads recvs
   \<and> proxy_socket_is_connected ps (filter (\<lambda>r. \<not> poll_transient r) polls) =
     proxy_socket_is_connected ps polls
   \<and> proxy_socket_read_all (Read_ok [] # reads) buf (Suc n) = (Returned (False, buf), [])
   \<and> render_socket_read_all (Read_ok [] # reads) buf (Suc n) = (Returned (False, buf), [])"
  by (simp add: proxy_send_filter render_send_filter proxy_receive_filter render_receive_filter
      is_connected_filter)

section \<open>The descriptor block of a stream-framed send\<close>





lemma render_sendmsg_stream_eq:
  "render_socket_sendmsg_stream d data control rs tot fds_sent =
   proxy_socket_sendmsg_stream d data control rs tot fds_sent"
  by (induction d data control rs tot fds_sent rule: proxy_socket_sendmsg_stream.induct) auto

lemma accepted_controls_append [simp]:
  "accepted_controls (a @ b) = accepted_controls a @ accepted_controls b"
  by (induction a rule: accepted_controls.induct) auto




section \<open>Descriptors of a received message\<close>

lemma closed_fds_append [simp]: "closed_fds (a @ b) = closed_fds a @ closed_fds b"
  by (induction a rule: closed_fds.induct) auto

lemma closed_fds_map_close [simp]: "closed_fds (map Sys_close ds) = ds"
  by (induction ds) auto

lemma closed_fds_set_cloexec [simp]: "closed_fds (set_cloexec getfd d) = []"
  by (simp add: set_cloexec_def Let_def)

lemma closed_fds_concat_set_cloexec [simp]:
  "closed_fds (concat (map (set_cloexec getfd) ds)) = []"
  by (induction ds) auto

lemma get_received_fds_rights:
  "get_received_fds apple (Some c) =
     (if cmsg_level c = SOL_SOCKET \<and> cmsg_type c = SCM_RIGHTS then cmsg_data c else [])"
  by (simp add: get_received_fds_def cmsg_len_def CMSG_LEN_def)


lemma closed_fds_read_all [simp]: "closed_fds (snd (proxy_socket_read_all rs buf remaining)) = []"
  by (induction rs buf remaining rule: proxy_socket_read_all.induct) (auto simp: Let_def)

lemma render_read_all_eq:
  "render_socket_read_all rs buf remaining = proxy_socket_read_all rs buf remaining"
  by (induction rs buf remaining rule: proxy_socket_read_all.induct) (auto simp: Let_def)







lemma no_descriptors_no_buffer [simp]:
  "stream_msg_control hdr 0 = None" "native_msg_control 0 = None"
  by (simp_all add: stream_msg_control_def native_msg_control_def)



text \<open>The descriptors that reach the process out of a block of rights.\<close>

lemma get_received_fds_None [simp]: "get_received_fds apple None = []"
  by (simp add: get_received_fds_def)




text \<open>The definitions that evaluate a control buffer on a concrete message.\<close>

lemmas control_eval = CMSG_FIRSTHDR_def recvmsg_control_def native_msg_control_def
  stream_msg_control_def expected_fds_def CMSG_SPACE_def CMSG_ALIGN_def CMSG_LEN_def
  cmsg_len_def cmsg_buf_overrun_def PROXY_SOCKET_MAX_FD_COUNT_def
  RENDER_SOCKET_MAX_FD_COUNT_def
















section \<open>Truncated and mismatched messages\<close>

lemma hdr_eval_one: "bytes_hdr [4, 0, 0, 0, 1, 0, 0, 0] = \<lparr>hdr_size = 4, hdr_fd_count = 1\<rparr>"
  by (simp add: bytes_hdr_def un_le32_def)

text \<open>
  C6. The truncation branch of \<^verbatim>\<open>recvmsg\<close> closes the descriptors that the flagged call
  stored and returns \<open>false\<close> (lemmas \<open>proxy_recvmsg_truncated\<close> and
  \<open>render_recvmsg_truncated\<close>). Two paths of the receive fail on a truncated message and
  leave a descriptor of it open, which the caller, told \<open>false\<close>, will not close either.

  In the stream-framing build a message of 4 bytes with one descriptor arrives in two
  pieces: the first \<^verbatim>\<open>recvmsg\<close> stores 2 bytes and descriptor 7, which the loop copies to
  the caller's array; the second, made with no control buffer, stores 2 bytes and reports
  \<^verbatim>\<open>MSG_CTRUNC\<close>. The receive returns \<open>false\<close> and its trace has no \<^verbatim>\<open>close\<close>.

  In the native-framing build a message of no bytes carries three descriptors to a
  receive that asks for one: the buffer holds two, the kernel stores 7 and 8 and reports
  \<^verbatim>\<open>MSG_CTRUNC\<close>, and the code returns \<open>false\<close> at its end-of-file test, before it looks at
  the flags; its trace has no \<^verbatim>\<open>close\<close>.
\<close>

theorem truncated_receive_leaks_descriptors:
  "proxy_socket_receive_reply_with_fds True (\<lambda>d. 0) \<lparr>proxy_socket.fd = 3\<rparr> True 4 True 1 True
     [Read_ok [4, 0, 0, 0, 1, 0, 0, 0]]
     [Recv_ok \<lparr>rx_data = [1, 2], rx_trunc = False, rx_ctrunc = False,
        rx_control = Some \<lparr>cmsg_level = SOL_SOCKET, cmsg_type = SCM_RIGHTS, cmsg_data = [7]\<rparr>\<rparr>,
      Recv_ok \<lparr>rx_data = [3, 4], rx_trunc = False, rx_ctrunc = True,
        rx_control = Some \<lparr>cmsg_level = SOL_SOCKET, cmsg_type = SCM_RIGHTS, cmsg_data = [9]\<rparr>\<rparr>]
   = (Returned None,
      [Log ''proxy_receive_reply: reading framing header, expecting size=%zu'',
       Log ''proxy_receive_reply: got header size=%u fd_count=%u'',
       Sys_setfd 7 1,
       Log ''failed to receive message: truncated''])
   \<and> render_socket_receive_request_with_fds True (\<lambda>d. 0) \<lparr>render_socket.fd = 4\<rparr> True 4 True 1
     True [Read_ok [4, 0, 0, 0, 1, 0, 0, 0]]
     [Recv_ok \<lparr>rx_data = [1, 2], rx_trunc = False, rx_ctrunc = False,
        rx_control = Some \<lparr>cmsg_level = SOL_SOCKET, cmsg_type = SCM_RIGHTS, cmsg_data = [7]\<rparr>\<rparr>,
      Recv_ok \<lparr>rx_data = [3, 4], rx_trunc = False, rx_ctrunc = True,
        rx_control = Some \<lparr>cmsg_level = SOL_SOCKET, cmsg_type = SCM_RIGHTS, cmsg_data = [9]\<rparr>\<rparr>]
   = (Returned None, [Sys_setfd 7 1, Log ''failed to receive message: truncated''])
   \<and> closed_fds [Log ''proxy_receive_reply: reading framing header, expecting size=%zu'',
       Log ''proxy_receive_reply: got header size=%u fd_count=%u'',
       Sys_setfd 7 1,
       Log ''failed to receive message: truncated''] = []
   \<and> proxy_socket_receive_reply_with_fds False (\<lambda>d. 0) \<lparr>proxy_socket.fd = 3\<rparr> True 4 True 1 True
     []
     [Recv_ok \<lparr>rx_data = [], rx_trunc = False, rx_ctrunc = True,
        rx_control = Some \<lparr>cmsg_level = SOL_SOCKET, cmsg_type = SCM_RIGHTS,
          cmsg_data = [7, 8, 9]\<rparr>\<rparr>]
   = (Returned None, [])
   \<and> render_socket_receive_request_with_fds False (\<lambda>d. 0) \<lparr>render_socket.fd = 4\<rparr> True 4 True 1
     True []
     [Recv_ok \<lparr>rx_data = [], rx_trunc = False, rx_ctrunc = True,
        rx_control = Some \<lparr>cmsg_level = SOL_SOCKET, cmsg_type = SCM_RIGHTS,
          cmsg_data = [7, 8, 9]\<rparr>\<rparr>]
   = (Returned None, [])"
  by (simp add: proxy_socket_receive_reply_with_fds_def
      render_socket_receive_request_with_fds_def proxy_socket_receive_reply_internal_def
      render_socket_receive_request_internal_def hdr_eval_one Let_def
      proxy_socket_receive_reply_loop.simps render_socket_receive_request_loop.simps
      get_received_fds_rights control_eval set_cloexec_def FD_CLOEXEC_def)

text \<open>The descriptors that \<^verbatim>\<open>recvmsg\<close> stored in those two receives: 7 with the first
  piece of the stream-framed message, 7 and 8 with the message of no bytes.\<close>

lemma leaked_descriptors_stored:
  "get_received_fds True (CMSG_FIRSTHDR True
       (stream_msg_control \<lparr>hdr_size = 4, hdr_fd_count = 1\<rparr> 1)
       \<lparr>rx_data = [1, 2], rx_trunc = False, rx_ctrunc = False,
        rx_control = Some \<lparr>cmsg_level = SOL_SOCKET, cmsg_type = SCM_RIGHTS,
          cmsg_data = [7]\<rparr>\<rparr>) = [7]"
  "get_received_fds False (CMSG_FIRSTHDR False (native_msg_control 1)
       \<lparr>rx_data = [], rx_trunc = False, rx_ctrunc = True,
        rx_control = Some \<lparr>cmsg_level = SOL_SOCKET, cmsg_type = SCM_RIGHTS,
          cmsg_data = [7, 8, 9]\<rparr>\<rparr>) = [7, 8]"
  by (simp_all add: get_received_fds_rights control_eval)





section \<open>The socket's own descriptor\<close>

lemma closed_fds_write_all [simp]: "closed_fds (snd (proxy_socket_write_all d rs buf)) = []"
  by (induction d rs buf rule: proxy_socket_write_all.induct) auto

lemma closed_fds_sendmsg_stream [simp]:
  "closed_fds (snd (proxy_socket_sendmsg_stream d data control rs tot fds_sent)) = []"
  by (induction d data control rs tot fds_sent rule: proxy_socket_sendmsg_stream.induct) auto

lemma closed_fds_sendmsg_seqpacket [simp]:
  "closed_fds (snd (proxy_socket_sendmsg_seqpacket d data control rs)) = []"
  by (induction d data control rs rule: proxy_socket_sendmsg_seqpacket.induct) auto

lemma render_write_all_eq:
  "render_socket_write_all d rs buf = proxy_socket_write_all d rs buf"
  by (induction d rs buf rule: proxy_socket_write_all.induct) auto

lemma render_sendmsg_seqpacket_eq:
  "render_socket_sendmsg_seqpacket d data control rs =
   proxy_socket_sendmsg_seqpacket d data control rs"
  by (induction d data control rs rule: proxy_socket_sendmsg_seqpacket.induct) auto

lemma closed_fds_is_connected [simp]:
  "closed_fds (snd (proxy_socket_is_connected ps rs)) = []"
  by (induction ps rs rule: proxy_socket_is_connected.induct) auto

lemma get_received_fds_firsthdr:
  "set (get_received_fds apple (CMSG_FIRSTHDR apple ctl m)) \<subseteq>
   set (get_received_fds apple (rx_control m))"
  by (auto simp: control_eval recvmsg_control_def get_received_fds_rights
      split: option.splits if_splits dest: in_set_takeD)

lemma proxy_recvmsg_closes:
  "set (closed_fds (fst (snd (proxy_socket_recvmsg apple getfd iov_len ctl rs))))
     \<subseteq> set (delivered_fds apple rs)
   \<and> set (delivered_fds apple (snd (snd (proxy_socket_recvmsg apple getfd iov_len ctl rs))))
     \<subseteq> set (delivered_fds apple rs)"
proof (induction apple getfd iov_len ctl rs rule: proxy_socket_recvmsg.induct)
  case (1 apple getfd iov_len msg_control)
  then show ?case by simp
next
  case (2 apple getfd iov_len msg_control e rs)
  then show ?case by auto
next
  case (3 apple getfd iov_len msg_control m rs)
  show ?case
    using get_received_fds_firsthdr [of apple msg_control m]
    by (auto simp: Let_def)
qed

lemma render_recvmsg_closes:
  "set (closed_fds (fst (snd (render_socket_recvmsg apple getfd iov_len ctl rs))))
     \<subseteq> set (delivered_fds apple rs)
   \<and> set (delivered_fds apple (snd (snd (render_socket_recvmsg apple getfd iov_len ctl rs))))
     \<subseteq> set (delivered_fds apple rs)"
proof (induction apple getfd iov_len ctl rs rule: render_socket_recvmsg.induct)
  case (1 apple getfd iov_len msg_control)
  then show ?case by simp
next
  case (2 apple getfd iov_len msg_control e rs)
  then show ?case by auto
next
  case (3 apple getfd iov_len msg_control m rs)
  show ?case
    using get_received_fds_firsthdr [of apple msg_control m]
    by (auto simp: Let_def)
qed

lemma proxy_loop_closes:
  "set (closed_fds (snd (proxy_socket_receive_reply_loop getfd sz fds_ok max_fd_count out_ok rs
      buf ctl fds cnt))) \<subseteq> set (delivered_fds True rs)"
proof (induction rs arbitrary: buf ctl fds cnt rule: length_induct)
  case (1 rs)
  show ?case
  proof (cases "length buf < sz")
    case False
    then show ?thesis by (simp add: proxy_loop_done)
  next
    case True
    obtain r tr rest where rv:
      "proxy_socket_recvmsg True getfd (sz - length buf) ctl rs = (r, tr, rest)"
      by (cases "proxy_socket_recvmsg True getfd (sz - length buf) ctl rs") auto
    have sub: "set (closed_fds tr) \<subseteq> set (delivered_fds True rs)"
      "set (delivered_fds True rest) \<subseteq> set (delivered_fds True rs)"
      using proxy_recvmsg_closes [of True getfd "sz - length buf" ctl rs] rv by simp_all
    show ?thesis
    proof (cases r)
      case Blocked
      then show ?thesis using True rv sub by (simp add: proxy_loop_blocked)
    next
      case Aborted
      then show ?thesis using True rv sub by (simp add: proxy_loop_aborted)
    next
      case (Returned x)
      show ?thesis
      proof (cases x)
        case None
        then show ?thesis using True rv Returned sub by (simp add: proxy_loop_fail)
      next
        case (Some p)
        obtain chunk cmsg where p: "p = (chunk, cmsg)" by (cases p)
        have less: "length rest < length rs"
          using rv Returned by (auto dest: proxy_socket_recvmsg_rest)
        have step: "proxy_socket_receive_reply_loop getfd sz fds_ok max_fd_count out_ok rs buf ctl
            fds cnt = emit tr (proxy_socket_receive_reply_loop getfd sz fds_ok max_fd_count
              out_ok rest (buf @ chunk) None
              (if ctl \<noteq> None \<and> fds_ok then
                 take (nat (min (int (length (get_received_fds True cmsg))) max_fd_count))
                   (get_received_fds True cmsg)
               else fds)
              (if ctl \<noteq> None \<and> out_ok then
                 Some (min (int (length (get_received_fds True cmsg))) max_fd_count)
               else cnt))"
          using True rv Returned Some p by (simp add: proxy_loop_step)
        from "1.IH" less have "set (closed_fds (snd (proxy_socket_receive_reply_loop getfd sz
              fds_ok max_fd_count out_ok rest (buf @ chunk) None
              (if ctl \<noteq> None \<and> fds_ok then
                 take (nat (min (int (length (get_received_fds True cmsg))) max_fd_count))
                   (get_received_fds True cmsg)
               else fds)
              (if ctl \<noteq> None \<and> out_ok then
                 Some (min (int (length (get_received_fds True cmsg))) max_fd_count)
               else cnt)))) \<subseteq> set (delivered_fds True rest)"
          by blast
        then show ?thesis
          using sub by (auto simp: step)
      qed
    qed
  qed
qed

lemma closed_fds_proxy_sendmsg [simp]:
  "closed_fds (snd (proxy_socket_sendmsg apple ps data control sends)) = []"
  by (simp add: proxy_socket_sendmsg_def)

lemma closed_fds_render_sendmsg [simp]:
  "closed_fds (snd (render_socket_sendmsg apple rsk data control sends)) = []"
  by (simp add: render_socket_sendmsg_def render_sendmsg_stream_eq render_sendmsg_seqpacket_eq)

lemma proxy_send_closes_nothing:
  "closed_fds (snd (proxy_socket_send_request_internal apple ps data fds fd_count writes sends)) = []"
proof (cases data)
  case None
  then show ?thesis by (simp add: proxy_socket_send_request_internal_def)
next
  case (Some bytes)
  obtain ow tw where W: "proxy_socket_write_all (proxy_socket.fd ps) writes
      (hdr_bytes \<lparr>hdr_size = of_nat (length bytes), hdr_fd_count = of_int fd_count\<rparr>) = (ow, tw)"
    by (cases "proxy_socket_write_all (proxy_socket.fd ps) writes
      (hdr_bytes \<lparr>hdr_size = of_nat (length bytes), hdr_fd_count = of_int fd_count\<rparr>)") auto
  have tw: "closed_fds tw = []"
    using closed_fds_write_all [of "proxy_socket.fd ps" writes
        "hdr_bytes \<lparr>hdr_size = of_nat (length bytes), hdr_fd_count = of_int fd_count\<rparr>"] W
    by simp
  show ?thesis
    using Some W tw
    by (cases ow) (auto simp: proxy_socket_send_request_internal_def Let_def split: bool.splits)
qed

lemma render_send_closes_nothing:
  "closed_fds (snd (render_socket_send_reply_internal apple rsk data fds fd_count writes sends)) = []"
proof (cases data)
  case None
  then show ?thesis by (simp add: render_socket_send_reply_internal_def)
next
  case (Some bytes)
  obtain ow tw where W: "proxy_socket_write_all (render_socket.fd rsk) writes
      (hdr_bytes \<lparr>hdr_size = of_nat (length bytes), hdr_fd_count = of_int fd_count\<rparr>) = (ow, tw)"
    by (cases "proxy_socket_write_all (render_socket.fd rsk) writes
      (hdr_bytes \<lparr>hdr_size = of_nat (length bytes), hdr_fd_count = of_int fd_count\<rparr>)") auto
  have tw: "closed_fds tw = []"
    using closed_fds_write_all [of "render_socket.fd rsk" writes
        "hdr_bytes \<lparr>hdr_size = of_nat (length bytes), hdr_fd_count = of_int fd_count\<rparr>"] W
    by simp
  show ?thesis
    using Some W tw
    by (cases ow)
       (auto simp: render_socket_send_reply_internal_def Let_def render_write_all_eq
        split: bool.splits)
qed

lemma proxy_receive_closes:
  "set (closed_fds (snd (proxy_socket_receive_reply_internal apple getfd ps buf_ok sz fds_ok
      max_fd_count out_ok reads recvs))) \<subseteq> set (delivered_fds apple recvs)"
proof (cases apple)
  case True
  obtain orr tr where R: "proxy_socket_read_all reads [] 8 = (orr, tr)"
    by (cases "proxy_socket_read_all reads [] 8") auto
  have tr: "closed_fds tr = []"
    using closed_fds_read_all [of reads "[]" 8] R by simp
  have lp: "set (closed_fds (snd (proxy_socket_receive_reply_loop getfd sz fds_ok max_fd_count
      out_ok recvs [] c [] k))) \<subseteq> set (delivered_fds True recvs)" for c k
    by (rule proxy_loop_closes)
  show ?thesis
  proof (cases orr)
    case (Returned x)
    obtain b hb where x: "x = (b, hb)" by (cases x)
    obtain lo tr2 where L: "proxy_socket_receive_reply_loop getfd sz fds_ok max_fd_count
        out_ok recvs [] (stream_msg_control (bytes_hdr hb) max_fd_count) []
        (if out_ok then Some 0 else None) = (lo, tr2)"
      by (cases "proxy_socket_receive_reply_loop getfd sz fds_ok max_fd_count
        out_ok recvs [] (stream_msg_control (bytes_hdr hb) max_fd_count) []
        (if out_ok then Some 0 else None)") auto
    have tr2: "set (closed_fds tr2) \<subseteq> set (delivered_fds True recvs)"
      using lp [of "stream_msg_control (bytes_hdr hb) max_fd_count"
          "if out_ok then Some 0 else None"] L by simp
    show ?thesis
      using True R Returned x L tr tr2
      by (cases b)
         (auto simp: proxy_socket_receive_reply_internal_def Let_def
          split: outcome.splits option.splits)
  next
    case Aborted
    then show ?thesis using True R tr
      by (simp add: proxy_socket_receive_reply_internal_def)
  next
    case Blocked
    then show ?thesis using True R tr
      by (simp add: proxy_socket_receive_reply_internal_def)
  qed
next
  case False
  obtain r tr rest where rv:
    "proxy_socket_recvmsg False getfd sz (native_msg_control max_fd_count) recvs = (r, tr, rest)"
    by (cases "proxy_socket_recvmsg False getfd sz (native_msg_control max_fd_count) recvs") auto
  have "set (closed_fds tr) \<subseteq> set (delivered_fds False recvs)"
    using proxy_recvmsg_closes [of False getfd sz "native_msg_control max_fd_count" recvs] rv by simp
  then show ?thesis
    using False rv
    by (auto simp: proxy_socket_receive_reply_internal_def Let_def
        split: outcome.splits option.splits)
qed

lemma render_receive_closes:
  "set (closed_fds (snd (render_socket_receive_request_internal apple getfd rsk buf_ok sz fds_ok
      max_fd_count out_ok reads recvs))) \<subseteq> set (delivered_fds apple recvs)"
proof (cases apple)
  case True
  obtain orr tr where R: "proxy_socket_read_all reads [] 8 = (orr, tr)"
    by (cases "proxy_socket_read_all reads [] 8") auto
  have tr: "closed_fds tr = []"
    using closed_fds_read_all [of reads "[]" 8] R by simp
  have lp: "set (closed_fds (snd (proxy_socket_receive_reply_loop getfd n fds_ok max_fd_count
      out_ok recvs [] c [] k))) \<subseteq> set (delivered_fds True recvs)" for n c k
    by (rule proxy_loop_closes)
  show ?thesis
  proof (cases orr)
    case (Returned x)
    obtain b hb where x: "x = (b, hb)" by (cases x)
    obtain lo tr2 where L: "proxy_socket_receive_reply_loop getfd (unat (hdr_size (bytes_hdr hb)))
        fds_ok max_fd_count
        out_ok recvs [] (stream_msg_control (bytes_hdr hb) max_fd_count) []
        (if out_ok then Some 0 else None) = (lo, tr2)"
      by (cases "proxy_socket_receive_reply_loop getfd (unat (hdr_size (bytes_hdr hb)))
        fds_ok max_fd_count
        out_ok recvs [] (stream_msg_control (bytes_hdr hb) max_fd_count) []
        (if out_ok then Some 0 else None)") auto
    have tr2: "set (closed_fds tr2) \<subseteq> set (delivered_fds True recvs)"
      using lp [of "unat (hdr_size (bytes_hdr hb))"
          "stream_msg_control (bytes_hdr hb) max_fd_count"
          "if out_ok then Some 0 else None"] L by simp
    show ?thesis
      using True R Returned x L tr tr2
      by (cases b)
         (auto simp: render_socket_receive_request_internal_def Let_def render_read_all_eq
          render_loop_eq split: outcome.splits option.splits)
  next
    case Aborted
    then show ?thesis using True R tr
      by (simp add: render_socket_receive_request_internal_def render_read_all_eq)
  next
    case Blocked
    then show ?thesis using True R tr
      by (simp add: render_socket_receive_request_internal_def render_read_all_eq)
  qed
next
  case False
  obtain r tr rest where rv:
    "render_socket_recvmsg False getfd sz (native_msg_control max_fd_count) recvs = (r, tr, rest)"
    by (cases "render_socket_recvmsg False getfd sz (native_msg_control max_fd_count) recvs") auto
  have "set (closed_fds tr) \<subseteq> set (delivered_fds False recvs)"
    using render_recvmsg_closes [of False getfd sz "native_msg_control max_fd_count" recvs] rv by simp
  then show ?thesis
    using False rv
    by (auto simp: render_socket_receive_request_internal_def Let_def
        split: outcome.splits option.splits)
qed


lemma render_receive_data_closes:
  "closed_fds (snd (render_socket_receive_data apple getfd rsk buf_ok sz reads recvs)) =
   closed_fds (snd (render_socket_receive_request_internal apple getfd rsk buf_ok sz False 0 False
     reads recvs))"
  by (cases "render_socket_receive_request_internal apple getfd rsk buf_ok sz False 0 False
     reads recvs")
     (auto simp: render_socket_receive_data_def render_socket_receive_request_def
      split: outcome.splits option.splits)

text \<open>
  C10. The only \<^verbatim>\<open>close\<close> calls outside \<^verbatim>\<open>fini\<close> are those of the receive paths, and
  they close descriptors that came with a received message: sends, the capability probe
  and the liveness probe close nothing, and every descriptor a receive closes is one that
  its \<^verbatim>\<open>recvmsg\<close> results carried. A descriptor that arrives with a message is a new
  descriptor of the process, so it is not the open socket (the hypothesis); hence no
  operation closes the socket of its endpoint, on any path. \<^verbatim>\<open>fini\<close> closes it, once.
  The operations take the endpoint and give none back: the code never assigns to
  \<^verbatim>\<open>socket->fd\<close> after \<^verbatim>\<open>init\<close>.
\<close>

theorem only_fini_closes_socket:
  assumes fresh: "proxy_socket.fd ps \<notin> set (delivered_fds apple recvs)"
      "render_socket.fd rsk \<notin> set (delivered_fds apple recvs)"
  shows "closed_fds (snd (proxy_socket_send_request_internal apple ps data fds fd_count writes sends)) = []
       \<and> closed_fds (snd (render_socket_send_reply_internal apple rsk data fds fd_count writes sends)) = []
       \<and> closed_fds (snd (proxy_socket_is_seqpacket apple (proxy_socket.fd ps) so)) = []
       \<and> closed_fds (snd (render_socket_is_seqpacket apple (render_socket.fd rsk) so)) = []
       \<and> closed_fds (snd (proxy_socket_is_connected ps polls)) = []
       \<and> set (closed_fds (snd (proxy_socket_receive_reply_internal apple getfd ps buf_ok sz fds_ok
              max_fd_count out_ok reads recvs))) \<subseteq> set (delivered_fds apple recvs)
       \<and> proxy_socket.fd ps \<notin> set (closed_fds (snd (proxy_socket_receive_reply_internal apple
              getfd ps buf_ok sz fds_ok max_fd_count out_ok reads recvs)))
       \<and> set (closed_fds (snd (render_socket_receive_request_internal apple getfd rsk buf_ok sz
              fds_ok max_fd_count out_ok reads recvs))) \<subseteq> set (delivered_fds apple recvs)
       \<and> render_socket.fd rsk \<notin> set (closed_fds (snd (render_socket_receive_request_internal
              apple getfd rsk buf_ok sz fds_ok max_fd_count out_ok reads recvs)))
       \<and> render_socket.fd rsk \<notin> set (closed_fds (snd (render_socket_receive_data apple getfd rsk
              buf_ok sz reads recvs)))
       \<and> closed_fds (proxy_socket_fini ps) = [proxy_socket.fd ps]
       \<and> closed_fds (render_socket_fini rsk) = [render_socket.fd rsk]"
proof -
  have p: "set (closed_fds (snd (proxy_socket_receive_reply_internal apple getfd ps buf_ok sz
      fds_ok max_fd_count out_ok reads recvs))) \<subseteq> set (delivered_fds apple recvs)"
    by (rule proxy_receive_closes)
  have r: "set (closed_fds (snd (render_socket_receive_request_internal apple getfd rsk buf_ok sz
      f m out reads recvs))) \<subseteq> set (delivered_fds apple recvs)" for f m out
    by (rule render_receive_closes)
  have probes: "closed_fds (snd (proxy_socket_is_seqpacket apple (proxy_socket.fd ps) so)) = []"
    "closed_fds (snd (render_socket_is_seqpacket apple (render_socket.fd rsk) so)) = []"
    by (auto simp: proxy_socket_is_seqpacket_def render_socket_is_seqpacket_def
        split: sockopt_ret.splits)
  show ?thesis
    using p r [of fds_ok max_fd_count out_ok] r [of False 0 False] fresh probes
    by (auto simp: proxy_send_closes_nothing render_send_closes_nothing
        render_receive_data_closes proxy_socket_fini_def render_socket_fini_def)
qed

theorem only_fini_closes_socket_witness:
  "3 \<notin> set (delivered_fds False
      [Recv_ok \<lparr>rx_data = [1, 2], rx_trunc = False, rx_ctrunc = True,
         rx_control = Some \<lparr>cmsg_level = SOL_SOCKET, cmsg_type = SCM_RIGHTS,
           cmsg_data = [7]\<rparr>\<rparr>])
   \<and> closed_fds (snd (proxy_socket_receive_reply_internal False (\<lambda>d. 0) \<lparr>proxy_socket.fd = 3\<rparr>
        True 4 True 1 True []
        [Recv_ok \<lparr>rx_data = [1, 2], rx_trunc = False, rx_ctrunc = True,
           rx_control = Some \<lparr>cmsg_level = SOL_SOCKET, cmsg_type = SCM_RIGHTS,
             cmsg_data = [7]\<rparr>\<rparr>])) = [7]
   \<and> 3 \<notin> set (closed_fds (snd (proxy_socket_receive_reply_internal False (\<lambda>d. 0)
        \<lparr>proxy_socket.fd = 3\<rparr> True 4 True 1 True []
        [Recv_ok \<lparr>rx_data = [1, 2], rx_trunc = False, rx_ctrunc = True,
           rx_control = Some \<lparr>cmsg_level = SOL_SOCKET, cmsg_type = SCM_RIGHTS,
             cmsg_data = [7]\<rparr>\<rparr>])))
   \<and> closed_fds (proxy_socket_fini \<lparr>proxy_socket.fd = 3\<rparr>) = [3]"
proof -
  let ?recvs = "[Recv_ok \<lparr>rx_data = [1, 2], rx_trunc = False, rx_ctrunc = True,
           rx_control = Some \<lparr>cmsg_level = SOL_SOCKET, cmsg_type = SCM_RIGHTS,
             cmsg_data = [7]\<rparr>\<rparr>]"
  have d: "delivered_fds False ?recvs = [7]"
    by (simp add: get_received_fds_rights)
  have fresh: "proxy_socket.fd \<lparr>proxy_socket.fd = 3\<rparr> \<notin> set (delivered_fds False ?recvs)"
    "render_socket.fd \<lparr>render_socket.fd = 4\<rparr> \<notin> set (delivered_fds False ?recvs)"
    by (simp_all add: get_received_fds_rights)
  have c: "closed_fds (snd (proxy_socket_receive_reply_internal False (\<lambda>d. 0)
        \<lparr>proxy_socket.fd = 3\<rparr> True 4 True 1 True [] ?recvs)) = [7]"
    by (simp add: get_received_fds_rights control_eval
        proxy_socket_receive_reply_internal_def PROXY_SOCKET_MAX_FD_COUNT_def Let_def)
  from only_fini_closes_socket [OF fresh, of None None 0 "[]" "[]" "Sockopt_ok SOCK_SEQPACKET" "[]"
      "\<lambda>d. 0" True 4 True 1 True "[]"]
  show ?thesis using c by (simp add: get_received_fds_rights)
qed

section \<open>Round trip\<close>

lemma wire_bytes_append [simp]: "wire_bytes (a @ b) = wire_bytes a @ wire_bytes b"
  by (induction a rule: wire_bytes.induct) auto

lemma sent_datagrams_append [simp]: "sent_datagrams (a @ b) = sent_datagrams a @ sent_datagrams b"
  by (induction a rule: sent_datagrams.induct) auto

lemma write_all_wire:
  "proxy_socket_write_all d rs buf = (Returned True, tr) \<Longrightarrow> wire_bytes tr = buf"
proof (induction d rs buf arbitrary: tr rule: proxy_socket_write_all.induct)
  case (1 fd buf)
  then show ?case by (auto split: if_splits)
next
  case (2 fd e rs buf)
  then show ?case
    by (cases "proxy_socket_write_all fd rs buf") (auto split: if_splits)
next
  case (3 fd k rs buf)
  then show ?case
    by (cases "proxy_socket_write_all fd rs (drop (min k (length buf)) buf)")
       (auto split: if_splits simp: min_def)
qed

lemma write_all_no_datagrams:
  "sent_datagrams (snd (proxy_socket_write_all d rs buf)) = []"
  by (induction d rs buf rule: proxy_socket_write_all.induct) auto


lemma sendmsg_stream_wire:
  "proxy_socket_sendmsg_stream d data control rs tot fds_sent = (Returned True, tr)
   \<Longrightarrow> wire_bytes tr = drop tot data"
proof (induction d data control rs tot fds_sent arbitrary: tr
    rule: proxy_socket_sendmsg_stream.induct)
  case (1 sfd data control total_sent fds_sent)
  then show ?case by (auto split: if_splits)
next
  case (2 sfd data control e rs total_sent fds_sent)
  then show ?case
    by (cases "proxy_socket_sendmsg_stream sfd data control rs total_sent fds_sent")
       (auto split: if_splits)
next
  case (3 sfd data control k rs total_sent fds_sent)
  show ?case
  proof (cases "total_sent < length data")
    case False
    then show ?thesis using "3.prems" by simp
  next
    case True
    obtain o2 tr2 where rec: "proxy_socket_sendmsg_stream sfd data control rs
        (total_sent + min k (length data - total_sent))
        (if control \<noteq> None then True else fds_sent) = (o2, tr2)"
      by (cases "proxy_socket_sendmsg_stream sfd data control rs
        (total_sent + min k (length data - total_sent))
        (if control \<noteq> None then True else fds_sent)") auto
    have o2: "o2 = Returned True"
      and tr: "tr = Sys_sendmsg sfd (drop total_sent data)
          (if \<not> fds_sent \<and> control \<noteq> None then control else None) (Send_ok k) # tr2"
      using "3.prems" True rec by auto
    define rest where "rest = drop total_sent data"
    have len: "length rest = length data - total_sent"
      by (simp add: rest_def)
    have "wire_bytes tr2 = drop (total_sent + min k (length data - total_sent)) data"
      using "3.IH" [OF True] rec o2 by simp
    also have "\<dots> = drop (min k (length rest)) rest"
      by (simp add: rest_def add.commute)
    finally have "wire_bytes tr = take k rest @ drop (min k (length rest)) rest"
      by (simp only: tr wire_bytes.simps rest_def)
    also have "\<dots> = rest"
      by (cases "k \<le> length rest") (simp_all add: min_def)
    finally show ?thesis by (simp only: rest_def)
  qed
qed


lemma prefix_length:
  assumes "take (length bs) w = bs"
  shows "length bs \<le> length w"
proof -
  have "length (take (length bs) w) = length bs"
    by (simp only: assms)
  then show ?thesis by simp
qed

lemma read_all_delivers:
  "reads_deliver rs w \<Longrightarrow>
   proxy_socket_read_all rs buf (length w) = (Returned (True, buf @ w), [])"
proof (induction rs arbitrary: buf w)
  case Nil
  then show ?case by simp
next
  case (Cons r rs)
  show ?case
  proof (cases r)
    case (Read_fail e)
    then show ?thesis using Cons by auto
  next
    case (Read_ok bs)
    have bs: "bs \<noteq> []" "take (length bs) w = bs" "reads_deliver rs (drop (length bs) w)"
      using Cons.prems Read_ok by simp_all
    have le: "length bs \<le> length w" using bs(2) by (rule prefix_length)
    have w: "bs @ drop (length bs) w = w"
      using bs(2) by (metis append_take_drop_id)
    have "proxy_socket_read_all rs (buf @ bs) (length (drop (length bs) w)) =
        (Returned (True, (buf @ bs) @ drop (length bs) w), [])"
      using Cons.IH [OF bs(3)] .
    then show ?thesis
      using Read_ok bs le w by (simp add: Let_def)
  qed
qed

lemma recvmsg_delivers_chunk:
  assumes "rx_data m \<noteq> []" "\<not> rx_trunc m" "\<not> rx_ctrunc m" "length (rx_data m) \<le> iov_len"
  shows "proxy_socket_recvmsg True getfd iov_len None (Recv_ok m # rs) =
     (Returned (Some (rx_data m, None)), [], rs)"
  using assms by (simp add: Let_def control_eval get_received_fds_def)

lemma loop_delivers:
  "recvs_deliver rs w \<Longrightarrow> sz = length buf + length w \<Longrightarrow>
   proxy_socket_receive_reply_loop getfd sz fds_ok max_fd_count out_ok rs buf None fds cnt =
     (Returned (Some (buf @ w, fds, cnt)), [])"
proof (induction rs arbitrary: buf w)
  case Nil
  then show ?case by (simp add: proxy_loop_done)
next
  case (Cons r rs)
  show ?case
  proof (cases r)
    case (Recv_fail e)
    then have te: "e = EINTR \<or> e = EAGAIN" and d: "recvs_deliver rs w"
      using Cons.prems by simp_all
    have f: "filter (\<lambda>r. \<not> recv_transient r) (r # rs) = filter (\<lambda>r. \<not> recv_transient r) rs"
      using Recv_fail te by auto
    have "proxy_socket_receive_reply_loop getfd sz fds_ok max_fd_count out_ok (r # rs) buf None
        fds cnt = proxy_socket_receive_reply_loop getfd sz fds_ok max_fd_count out_ok rs buf
        None fds cnt"
      using proxy_receive_loop_filter [of getfd sz fds_ok max_fd_count out_ok "r # rs" buf None
          fds cnt]
        proxy_receive_loop_filter [of getfd sz fds_ok max_fd_count out_ok rs buf None fds cnt] f
      by simp
    then show ?thesis using Cons.IH [OF d Cons.prems(2)] by simp
  next
    case (Recv_ok m)
    have m: "rx_data m \<noteq> []" "\<not> rx_trunc m" "\<not> rx_ctrunc m"
      "take (length (rx_data m)) w = rx_data m"
      "recvs_deliver rs (drop (length (rx_data m)) w)"
      using Cons.prems Recv_ok by simp_all
    have le: "length (rx_data m) \<le> length w" using m(4) by (rule prefix_length)
    have w: "rx_data m @ drop (length (rx_data m)) w = w"
      using m(4) by (metis append_take_drop_id)
    have lt: "length buf < sz" using Cons.prems(2) le m(1)
      by (cases "rx_data m") auto
    have rv: "proxy_socket_recvmsg True getfd (sz - length buf) None (r # rs) =
        (Returned (Some (rx_data m, None)), [], rs)"
      using recvmsg_delivers_chunk [OF m(1,2,3), of "sz - length buf" getfd rs] le Cons.prems(2)
        Recv_ok by simp
    have sz': "sz = length (buf @ rx_data m) + length (drop (length (rx_data m)) w)"
      using Cons.prems(2) le by simp
    show ?thesis
      using proxy_loop_step [OF lt rv, of fds_ok max_fd_count out_ok fds cnt]
        Cons.IH [OF m(5) sz'] w
      by simp
  qed
qed

lemma recvmsg_delivers_datagram:
  assumes "recvs_deliver_datagram rs d" "d \<noteq> []" "length d \<le> iov_len"
  shows "fst (proxy_socket_recvmsg False getfd iov_len None rs) =
           (if length d = iov_len then Returned (Some (d, None)) else Returned None)
       \<and> fst (render_socket_recvmsg False getfd iov_len None rs) = Returned (Some (d, None))
       \<and> fst (snd (render_socket_recvmsg False getfd iov_len None rs)) = []"
  using assms
proof (induction rs)
  case Nil
  then show ?case by simp
next
  case (Cons r rs)
  then show ?case
    by (cases r) (auto simp: Let_def control_eval)
qed


lemma sendmsg_seqpacket_datagram:
  "proxy_socket_sendmsg_seqpacket d data control rs = (Returned True, tr)
   \<Longrightarrow> sent_datagrams tr = [data]"
proof (induction d data control rs arbitrary: tr rule: proxy_socket_sendmsg_seqpacket.induct)
  case (1 sfd data control)
  then show ?case by simp
next
  case (2 sfd data control e rs)
  then show ?case
    by (cases "proxy_socket_sendmsg_seqpacket sfd data control rs") (auto split: if_splits)
next
  case (3 sfd data control k rs)
  then show ?case by (auto split: if_splits simp: min_def)
qed

lemma sendmsg_stream_no_datagram_loss:
  "proxy_socket_sendmsg True ps data None sends = (Returned True, tr) \<Longrightarrow> wire_bytes tr = data"
  using sendmsg_stream_wire [of "proxy_socket.fd ps" data None sends 0 False tr]
  by (simp add: proxy_socket_sendmsg_def)

lemma proxy_send_wire:
  assumes "proxy_socket_send_request apple ps (Some payload) writes sends = (Returned True, tr)"
  shows "payload \<noteq> [] \<and>
     (if apple then
        wire_bytes tr =
          hdr_bytes \<lparr>hdr_size = of_nat (length payload), hdr_fd_count = 0\<rparr> @ payload
      else sent_datagrams tr = [payload])"
proof (cases apple)
  case False
  obtain o1 t1 where S: "proxy_socket_sendmsg_seqpacket (proxy_socket.fd ps) payload None sends
      = (o1, t1)"
    by (cases "proxy_socket_sendmsg_seqpacket (proxy_socket.fd ps) payload None sends") auto
  have "o1 = Returned True \<and> tr = Log ''proxy_send_request: sending data size=%zu'' # t1 \<and>
      payload \<noteq> []"
    using assms False S
    by (auto simp: proxy_socket_send_request_def proxy_socket_send_request_internal_def
        proxy_socket_sendmsg_def Let_def split: if_splits)
  then show ?thesis
    using False S sendmsg_seqpacket_datagram [of "proxy_socket.fd ps" payload None sends t1]
    by simp
next
  case True
  let ?h = "hdr_bytes \<lparr>hdr_size = of_nat (length payload), hdr_fd_count = 0\<rparr>"
  obtain ow tw where W: "proxy_socket_write_all (proxy_socket.fd ps) writes ?h = (ow, tw)"
    by (cases "proxy_socket_write_all (proxy_socket.fd ps) writes ?h") auto
  obtain o1 t1 where S: "proxy_socket_sendmsg_stream (proxy_socket.fd ps) payload None sends 0
      False = (o1, t1)"
    by (cases "proxy_socket_sendmsg_stream (proxy_socket.fd ps) payload None sends 0 False") auto
  have ne: "payload \<noteq> []"
    using assms
    by (auto simp: proxy_socket_send_request_def proxy_socket_send_request_internal_def
        split: if_splits)
  have "ow = Returned True \<and> o1 = Returned True \<and>
      tr = Log ''proxy_send_request: sending framing header size=%u fd_count=%u'' # tw @
           Log ''proxy_send_request: sending data size=%zu'' # t1"
    using assms True W S ne
    by (cases ow)
       (auto simp: proxy_socket_send_request_def proxy_socket_send_request_internal_def
        proxy_socket_sendmsg_def Let_def split: bool.splits)
  then show ?thesis
    using True ne write_all_wire [of "proxy_socket.fd ps" writes ?h tw] W
      sendmsg_stream_wire [of "proxy_socket.fd ps" payload None sends 0 False t1] S
    by simp
qed

lemma render_send_wire:
  assumes "render_socket_send_reply apple rsk (Some payload) writes sends = (Returned True, tr)"
  shows "payload \<noteq> [] \<and>
     (if apple then
        wire_bytes tr =
          hdr_bytes \<lparr>hdr_size = of_nat (length payload), hdr_fd_count = 0\<rparr> @ payload
      else sent_datagrams tr = [payload])"
proof (cases apple)
  case False
  obtain o1 t1 where S: "proxy_socket_sendmsg_seqpacket (render_socket.fd rsk) payload None sends
      = (o1, t1)"
    by (cases "proxy_socket_sendmsg_seqpacket (render_socket.fd rsk) payload None sends") auto
  have "o1 = Returned True \<and> tr = t1 \<and> payload \<noteq> []"
    using assms False S
    by (auto simp: render_socket_send_reply_def render_socket_send_reply_internal_def
        render_socket_sendmsg_def render_sendmsg_seqpacket_eq Let_def split: if_splits)
  then show ?thesis
    using False S sendmsg_seqpacket_datagram [of "render_socket.fd rsk" payload None sends t1]
    by simp
next
  case True
  let ?h = "hdr_bytes \<lparr>hdr_size = of_nat (length payload), hdr_fd_count = 0\<rparr>"
  obtain ow tw where W: "proxy_socket_write_all (render_socket.fd rsk) writes ?h = (ow, tw)"
    by (cases "proxy_socket_write_all (render_socket.fd rsk) writes ?h") auto
  obtain o1 t1 where S: "proxy_socket_sendmsg_stream (render_socket.fd rsk) payload None sends 0
      False = (o1, t1)"
    by (cases "proxy_socket_sendmsg_stream (render_socket.fd rsk) payload None sends 0 False") auto
  have ne: "payload \<noteq> []"
    using assms
    by (auto simp: render_socket_send_reply_def render_socket_send_reply_internal_def
        split: if_splits)
  have "ow = Returned True \<and> o1 = Returned True \<and> tr = tw @ t1"
    using assms True W S ne
    by (cases ow)
       (auto simp: render_socket_send_reply_def render_socket_send_reply_internal_def
        render_socket_sendmsg_def render_sendmsg_stream_eq render_write_all_eq Let_def
        split: bool.splits)
  then show ?thesis
    using True ne write_all_wire [of "render_socket.fd rsk" writes ?h tw] W
      sendmsg_stream_wire [of "render_socket.fd rsk" payload None sends 0 False t1] S
    by simp
qed


lemma unat_size_field: "n < 2 ^ 32 \<Longrightarrow> unat (of_nat n :: 32 word) = n"
  by (simp add: unsigned_of_nat take_bit_nat_eq_self)

lemma stream_receive_delivered:
  assumes n: "payload \<noteq> []" "length payload < 2 ^ 32"
    and rd: "reads_deliver reads
        (take 8 (hdr_bytes \<lparr>hdr_size = of_nat (length payload), hdr_fd_count = 0\<rparr> @ payload))"
    and rv: "recvs_deliver recvs
        (drop 8 (hdr_bytes \<lparr>hdr_size = of_nat (length payload), hdr_fd_count = 0\<rparr> @ payload))"
  shows "length payload \<le> cap \<Longrightarrow>
         fst (render_socket_receive_request True getfd rsk True cap reads recvs) =
           Returned (Some (payload, length payload, [], None))"
    and "fst (proxy_socket_receive_reply True getfd ps True (length payload) reads recvs) =
           Returned (Some (payload, [], None))"
proof -
  let ?h = "\<lparr>hdr_size = of_nat (length payload), hdr_fd_count = 0\<rparr> :: stream_msg_header"
  have rd': "reads_deliver reads (hdr_bytes ?h)" and rv': "recvs_deliver recvs payload"
    using rd rv by (simp_all add: length_hdr_bytes)
  have hd: "proxy_socket_read_all reads [] 8 = (Returned (True, hdr_bytes ?h), [])"
    using read_all_delivers [OF rd', of "[]"] by (simp add: length_hdr_bytes)
  have sz: "unat (hdr_size (bytes_hdr (hdr_bytes ?h))) = length payload"
    "hdr_fd_count (bytes_hdr (hdr_bytes ?h)) = 0"
    using n(2) by (simp_all add: bytes_hdr_hdr_bytes unat_size_field)
  have lp: "proxy_socket_receive_reply_loop getfd (length payload) False 0 False recvs [] None []
      None = (Returned (Some (payload, [], None)), [])"
    using loop_delivers [OF rv', of "length payload" "[]" getfd False 0 False "[]" None] by simp
  have pos: "0 < length payload" using n(1) by simp
  show "fst (proxy_socket_receive_reply True getfd ps True (length payload) reads recvs) =
           Returned (Some (payload, [], None))"
    using hd sz lp pos
    by (simp add: proxy_socket_receive_reply_def proxy_socket_receive_reply_internal_def Let_def)
  show "fst (render_socket_receive_request True getfd rsk True cap reads recvs) =
           Returned (Some (payload, length payload, [], None))" if "length payload \<le> cap"
    using hd sz lp pos that
    by (cases "cap = 0")
       (simp_all add: render_socket_receive_request_def
        render_socket_receive_request_internal_def Let_def render_read_all_eq render_loop_eq)
qed

lemma native_receive_delivered:
  assumes n: "payload \<noteq> []" and rv: "recvs_deliver_datagram recvs payload"
  shows "length payload \<le> cap \<Longrightarrow>
         fst (render_socket_receive_request False getfd rsk True cap reads recvs) =
           Returned (Some (payload, length payload, [], None))"
    and "fst (proxy_socket_receive_reply False getfd ps True (length payload) reads recvs) =
           Returned (Some (payload, [], None))"
proof -
  have pos: "0 < length payload" using n by simp
  show "fst (proxy_socket_receive_reply False getfd ps True (length payload) reads recvs) =
           Returned (Some (payload, [], None))"
    using recvmsg_delivers_datagram [OF rv n, of "length payload" getfd] pos
    by (cases "proxy_socket_recvmsg False getfd (length payload) None recvs")
       (simp add: proxy_socket_receive_reply_def proxy_socket_receive_reply_internal_def)
  show "fst (render_socket_receive_request False getfd rsk True cap reads recvs) =
           Returned (Some (payload, length payload, [], None))" if "length payload \<le> cap"
    using recvmsg_delivers_datagram [OF rv n that, of getfd] pos that
    by (cases "render_socket_recvmsg False getfd cap None recvs"; cases "cap = 0")
       (simp_all add: render_socket_receive_request_def
        render_socket_receive_request_internal_def)
qed

lemma proxy_recvmsg_chunk_length:
  "proxy_socket_recvmsg apple getfd iov_len ctl rs = (Returned (Some (chunk, cmsg)), tr, rest)
   \<Longrightarrow> length chunk \<le> iov_len \<and> (\<not> apple \<longrightarrow> length chunk = iov_len)"
  by (induction apple getfd iov_len ctl rs rule: proxy_socket_recvmsg.induct)
     (auto simp: Let_def split: if_splits)

lemma render_recvmsg_chunk_length:
  "render_socket_recvmsg apple getfd iov_len ctl rs = (Returned (Some (chunk, cmsg)), tr, rest)
   \<Longrightarrow> length chunk \<le> iov_len"
  by (induction apple getfd iov_len ctl rs rule: render_socket_recvmsg.induct)
     (auto simp: Let_def split: if_splits)

lemma proxy_loop_length:
  "proxy_socket_receive_reply_loop getfd sz fds_ok max_fd_count out_ok rs buf ctl fds cnt =
     (Returned (Some (b, f, c)), tr) \<Longrightarrow> length buf \<le> sz \<Longrightarrow> length b = sz"
proof (induction rs arbitrary: buf ctl fds cnt tr rule: length_induct)
  case (1 rs)
  show ?case
  proof (cases "length buf < sz")
    case False
    then show ?thesis using "1.prems" by (simp add: proxy_loop_done)
  next
    case True
    obtain r tr1 rest where rv:
      "proxy_socket_recvmsg True getfd (sz - length buf) ctl rs = (r, tr1, rest)"
      by (cases "proxy_socket_recvmsg True getfd (sz - length buf) ctl rs") auto
    show ?thesis
    proof (cases r)
      case Blocked
      then show ?thesis using True rv "1.prems" by (simp add: proxy_loop_blocked)
    next
      case Aborted
      then show ?thesis using True rv "1.prems" by (simp add: proxy_loop_aborted)
    next
      case (Returned x)
      show ?thesis
      proof (cases x)
        case None
        then show ?thesis using True rv Returned "1.prems" by (simp add: proxy_loop_fail)
      next
        case (Some p)
        obtain chunk cmsg where p: "p = (chunk, cmsg)" by (cases p)
        have less: "length rest < length rs"
          using rv Returned by (auto dest: proxy_socket_recvmsg_rest)
        have le: "length (buf @ chunk) \<le> sz"
          using proxy_recvmsg_chunk_length [of True getfd "sz - length buf" ctl rs chunk cmsg tr1
              rest] rv Returned Some p True by simp
        obtain tr2 where
          "proxy_socket_receive_reply_loop getfd sz fds_ok max_fd_count out_ok rest
             (buf @ chunk) None
             (if ctl \<noteq> None \<and> fds_ok then
                take (nat (min (int (length (get_received_fds True cmsg))) max_fd_count))
                  (get_received_fds True cmsg)
              else fds)
             (if ctl \<noteq> None \<and> out_ok then
                Some (min (int (length (get_received_fds True cmsg))) max_fd_count)
              else cnt) = (Returned (Some (b, f, c)), tr2)"
          using True rv Returned Some p "1.prems"(1)
          by (cases "proxy_socket_receive_reply_loop getfd sz fds_ok max_fd_count out_ok rest
             (buf @ chunk) None
             (if ctl \<noteq> None \<and> fds_ok then
                take (nat (min (int (length (get_received_fds True cmsg))) max_fd_count))
                  (get_received_fds True cmsg)
              else fds)
             (if ctl \<noteq> None \<and> out_ok then
                Some (min (int (length (get_received_fds True cmsg))) max_fd_count)
              else cnt)") (simp add: proxy_loop_step)
        with "1.IH" less le show ?thesis by blast
      qed
    qed
  qed
qed

lemma proxy_receive_whole:
  assumes "proxy_socket_receive_reply_internal apple getfd ps d sz fds_ok max_fd_count out_ok
      reads recvs = (Returned (Some (buf, fds, cnt)), tr)"
  shows "length buf = sz"
proof (cases apple)
  case True
  obtain orr tr0 where R: "proxy_socket_read_all reads [] 8 = (orr, tr0)"
    by (cases "proxy_socket_read_all reads [] 8") auto
  obtain hb where orr: "orr = Returned (True, hb)"
    using assms True R
    by (cases orr) (auto simp: proxy_socket_receive_reply_internal_def split: if_splits bool.splits)
  obtain lo tr2 where L: "proxy_socket_receive_reply_loop getfd sz fds_ok max_fd_count
        out_ok recvs [] (stream_msg_control (bytes_hdr hb) max_fd_count) []
        (if out_ok then Some 0 else None) = (lo, tr2)"
    by (cases "proxy_socket_receive_reply_loop getfd sz fds_ok max_fd_count
        out_ok recvs [] (stream_msg_control (bytes_hdr hb) max_fd_count) []
        (if out_ok then Some 0 else None)") auto
  have "\<exists>f c. lo = Returned (Some (buf, f, c))"
    using assms True R orr L
    by (auto simp: proxy_socket_receive_reply_internal_def Let_def
        split: if_splits outcome.splits option.splits)
  then show ?thesis
    using proxy_loop_length [of getfd sz fds_ok max_fd_count out_ok recvs "[]" _ "[]" _ buf] L
    by auto
next
  case False
  obtain r tr1 rest where rv:
    "proxy_socket_recvmsg False getfd sz (native_msg_control max_fd_count) recvs = (r, tr1, rest)"
    by (cases "proxy_socket_recvmsg False getfd sz (native_msg_control max_fd_count) recvs") auto
  have "\<exists>cmsg. r = Returned (Some (buf, cmsg))"
    using assms False rv
    by (auto simp: proxy_socket_receive_reply_internal_def Let_def
        split: if_splits outcome.splits option.splits)
  then show ?thesis
    using proxy_recvmsg_chunk_length [of False getfd sz "native_msg_control max_fd_count" recvs buf _ tr1 rest]
      rv by auto
qed

lemma render_receive_whole:
  assumes "render_socket_receive_request_internal apple getfd rsk d cap fds_ok max_fd_count
      out_ok reads recvs = (Returned (Some (buf, n, fds, cnt)), tr)"
  shows "length buf = n \<and> n \<le> cap"
proof (cases apple)
  case True
  obtain orr tr0 where R: "proxy_socket_read_all reads [] 8 = (orr, tr0)"
    by (cases "proxy_socket_read_all reads [] 8") auto
  obtain hb where orr: "orr = Returned (True, hb)"
    using assms True R
    by (cases orr)
       (auto simp: render_socket_receive_request_internal_def render_read_all_eq
        split: if_splits bool.splits)
  let ?sz = "unat (hdr_size (bytes_hdr hb))"
  obtain lo tr2 where L: "proxy_socket_receive_reply_loop getfd ?sz fds_ok max_fd_count
        out_ok recvs [] (stream_msg_control (bytes_hdr hb) max_fd_count) []
        (if out_ok then Some 0 else None) = (lo, tr2)"
    by (cases "proxy_socket_receive_reply_loop getfd ?sz fds_ok max_fd_count
        out_ok recvs [] (stream_msg_control (bytes_hdr hb) max_fd_count) []
        (if out_ok then Some 0 else None)") auto
  have "(\<exists>f c. lo = Returned (Some (buf, f, c))) \<and> n = ?sz \<and> ?sz \<le> cap"
    using assms True R orr L
    by (auto simp: render_socket_receive_request_internal_def Let_def render_read_all_eq
        render_loop_eq split: if_splits outcome.splits option.splits)
  then show ?thesis
    using proxy_loop_length [of getfd ?sz fds_ok max_fd_count out_ok recvs "[]" _ "[]" _ buf] L
    by auto
next
  case False
  obtain r tr1 rest where rv:
    "render_socket_recvmsg False getfd cap (native_msg_control max_fd_count) recvs = (r, tr1, rest)"
    by (cases "render_socket_recvmsg False getfd cap (native_msg_control max_fd_count) recvs") auto
  have "(\<exists>cmsg. r = Returned (Some (buf, cmsg))) \<and> n = length buf"
    using assms False rv
    by (auto simp: render_socket_receive_request_internal_def Let_def
        split: if_splits outcome.splits option.splits)
  then show ?thesis
    using render_recvmsg_chunk_length [of False getfd cap "native_msg_control max_fd_count" recvs buf _ tr1
        rest] rv by auto
qed

text \<open>
  C1, as the code has it. A payload sent by the client (\<^verbatim>\<open>proxy_socket_send_request\<close>)
  and delivered by the wire is returned by the server's receive byte for byte, with
  \<open>out_size\<close> its length, whenever it fits the capacity; a payload sent by the server
  (\<^verbatim>\<open>render_socket_send_reply\<close>) is returned by the client's receive when the client asks
  for exactly its length. Both hold in the native and in the stream framing, however the
  stream is cut into pieces, for a payload shorter than \<open>2^32\<close> bytes in the stream
  framing (the header's size field has 32 bits). And no receive returns a short message:
  the server's returns exactly \<open>out_size\<close> bytes, at most the capacity, and the client's
  exactly the size asked for.
\<close>

theorem send_receive_roundtrip:
  "(length payload \<le> cap \<and> (apple \<longrightarrow> length payload < 2 ^ 32) \<and>
    proxy_socket_send_request apple ps (Some payload) writes sends = (Returned True, tr) \<and>
    wire_delivers apple tr reads recvs
    \<longrightarrow> fst (render_socket_receive_request apple getfd rsk True cap reads recvs) =
          Returned (Some (payload, length payload, [], None)))
   \<and> ((apple \<longrightarrow> length payload < 2 ^ 32) \<and>
      render_socket_send_reply apple rsk (Some payload) writes sends = (Returned True, tr) \<and>
      wire_delivers apple tr reads recvs
      \<longrightarrow> fst (proxy_socket_receive_reply apple getfd ps True (length payload) reads recvs) =
            Returned (Some (payload, [], None)))
   \<and> (render_socket_receive_request_internal apple getfd rsk d cap fds_ok max_fd_count out_ok
        reads recvs = (Returned (Some (buf, n, fds, cnt)), tr')
      \<longrightarrow> length buf = n \<and> n \<le> cap)
   \<and> (proxy_socket_receive_reply_internal apple getfd ps d sz fds_ok max_fd_count out_ok
        reads recvs = (Returned (Some (buf, fds, cnt)), tr')
      \<longrightarrow> length buf = sz)"
proof (intro conjI impI)
  assume a: "length payload \<le> cap \<and> (apple \<longrightarrow> length payload < 2 ^ 32) \<and>
    proxy_socket_send_request apple ps (Some payload) writes sends = (Returned True, tr) \<and>
    wire_delivers apple tr reads recvs"
  then have s: "proxy_socket_send_request apple ps (Some payload) writes sends =
      (Returned True, tr)" by simp
  note w = proxy_send_wire [OF s]
  show "fst (render_socket_receive_request apple getfd rsk True cap reads recvs) =
      Returned (Some (payload, length payload, [], None))"
  proof (cases apple)
    case True
    then show ?thesis
      using w a stream_receive_delivered(1) [of payload reads recvs cap getfd rsk]
      by (simp add: wire_delivers_def)
  next
    case False
    then show ?thesis
      using w a native_receive_delivered(1) [of payload recvs cap getfd rsk reads]
      by (simp add: wire_delivers_def)
  qed
next
  assume a: "(apple \<longrightarrow> length payload < 2 ^ 32) \<and>
      render_socket_send_reply apple rsk (Some payload) writes sends = (Returned True, tr) \<and>
      wire_delivers apple tr reads recvs"
  then have s: "render_socket_send_reply apple rsk (Some payload) writes sends =
      (Returned True, tr)" by simp
  note w = render_send_wire [OF s]
  show "fst (proxy_socket_receive_reply apple getfd ps True (length payload) reads recvs) =
      Returned (Some (payload, [], None))"
  proof (cases apple)
    case True
    then show ?thesis
      using w a stream_receive_delivered(2) [of payload reads recvs getfd ps]
      by (simp add: wire_delivers_def)
  next
    case False
    then show ?thesis
      using w a native_receive_delivered(2) [of payload recvs getfd ps reads]
      by (simp add: wire_delivers_def)
  qed
next
  assume "render_socket_receive_request_internal apple getfd rsk d cap fds_ok max_fd_count
      out_ok reads recvs = (Returned (Some (buf, n, fds, cnt)), tr')"
  from render_receive_whole [OF this] show "length buf = n" and "n \<le> cap" by simp_all
next
  assume "proxy_socket_receive_reply_internal apple getfd ps d sz fds_ok max_fd_count out_ok
      reads recvs = (Returned (Some (buf, fds, cnt)), tr')"
  from proxy_receive_whole [OF this] show "length buf = sz" .
qed

lemma hdr_bytes_eval:
  "hdr_bytes \<lparr>hdr_size = 4, hdr_fd_count = 0\<rparr> = [4, 0, 0, 0, 0, 0, 0, 0]"
  "hdr_bytes \<lparr>hdr_size = 1, hdr_fd_count = 0\<rparr> = [1, 0, 0, 0, 0, 0, 0, 0]"
  by (simp_all add: hdr_bytes_def le32_def)

lemma bytes_hdr_eval:
  "bytes_hdr [4, 0, 0, 0, 0, 0, 0, 0] = \<lparr>hdr_size = 4, hdr_fd_count = 0\<rparr>"
  "bytes_hdr [1, 0, 0, 0, 0, 0, 0, 0] = \<lparr>hdr_size = 1, hdr_fd_count = 0\<rparr>"
  by (simp_all add: bytes_hdr_def un_le32_def)

text \<open>The four bytes \<open>PING\<close>: from client to server in the stream framing, the payload
  accepted in two pieces after an \<^verbatim>\<open>EINTR\<close> and received in two; from server to client
  in the native framing; and one successful receive of each role.\<close>

theorem send_receive_roundtrip_witness:
  "proxy_socket_send_request True \<lparr>proxy_socket.fd = 3\<rparr> (Some [80, 73, 78, 71]) [Write_ok 8]
     [Send_fail EINTR, Send_ok 1, Send_ok 3]
   = (Returned True,
      [Log ''proxy_send_request: sending framing header size=%u fd_count=%u'',
       Sys_write 3 [4, 0, 0, 0, 0, 0, 0, 0] (Write_ok 8),
       Log ''proxy_send_request: sending data size=%zu'',
       Sys_sendmsg 3 [80, 73, 78, 71] None (Send_fail EINTR),
       Sys_sendmsg 3 [80, 73, 78, 71] None (Send_ok 1),
       Sys_sendmsg 3 [73, 78, 71] None (Send_ok 3)])
   \<and> fst (render_socket_receive_request True (\<lambda>d. 0) \<lparr>render_socket.fd = 4\<rparr> True 16
       [Read_ok [4, 0, 0], Read_fail EAGAIN, Read_ok [0, 0, 0, 0, 0]]
       [Recv_ok \<lparr>rx_data = [80, 73], rx_trunc = False, rx_ctrunc = False, rx_control = None\<rparr>,
        Recv_fail EINTR,
        Recv_ok \<lparr>rx_data = [78, 71], rx_trunc = False, rx_ctrunc = False, rx_control = None\<rparr>])
     = Returned (Some ([80, 73, 78, 71], 4, [], None))
   \<and> render_socket_send_reply False \<lparr>render_socket.fd = 4\<rparr> (Some [80, 73, 78, 71]) []
       [Send_ok 4]
     = (Returned True, [Sys_sendmsg 4 [80, 73, 78, 71] None (Send_ok 4)])
   \<and> fst (proxy_socket_receive_reply False (\<lambda>d. 0) \<lparr>proxy_socket.fd = 3\<rparr> True 4 []
       [Recv_fail EINTR,
        Recv_ok \<lparr>rx_data = [80, 73, 78, 71], rx_trunc = False, rx_ctrunc = False,
          rx_control = None\<rparr>])
     = Returned (Some ([80, 73, 78, 71], [], None))
   \<and> render_socket_receive_request_internal False (\<lambda>d. 0) \<lparr>render_socket.fd = 4\<rparr> True 16 False 0
       False []
       [Recv_ok \<lparr>rx_data = [80, 73, 78, 71], rx_trunc = False, rx_ctrunc = False,
          rx_control = None\<rparr>]
     = (Returned (Some ([80, 73, 78, 71], 4, [], None)), [])
   \<and> length [80 :: byte, 73, 78, 71] = 4 \<and> (4 :: nat) \<le> 16
   \<and> proxy_socket_receive_reply_internal True (\<lambda>d. 0) \<lparr>proxy_socket.fd = 3\<rparr> True 4 False 0
       False [Read_ok [4, 0, 0, 0, 0, 0, 0, 0]]
       [Recv_ok \<lparr>rx_data = [80, 73], rx_trunc = False, rx_ctrunc = False, rx_control = None\<rparr>,
        Recv_ok \<lparr>rx_data = [78, 71], rx_trunc = False, rx_ctrunc = False, rx_control = None\<rparr>]
     = (Returned (Some ([80, 73, 78, 71], [], None)),
        [Log ''proxy_receive_reply: reading framing header, expecting size=%zu'',
         Log ''proxy_receive_reply: got header size=%u fd_count=%u''])"
proof -
  let ?payload = "[80, 73, 78, 71] :: byte list"
  let ?tr = "[Log ''proxy_send_request: sending framing header size=%u fd_count=%u'',
       Sys_write 3 [4, 0, 0, 0, 0, 0, 0, 0] (Write_ok 8),
       Log ''proxy_send_request: sending data size=%zu'',
       Sys_sendmsg 3 ?payload None (Send_fail EINTR),
       Sys_sendmsg 3 ?payload None (Send_ok 1),
       Sys_sendmsg 3 [73, 78, 71] None (Send_ok 3)]"
  let ?reads = "[Read_ok [4, 0, 0], Read_fail EAGAIN, Read_ok [0, 0, 0, 0, 0]]"
  let ?recvs = "[Recv_ok \<lparr>rx_data = [80, 73], rx_trunc = False, rx_ctrunc = False,
          rx_control = None\<rparr>,
        Recv_fail EINTR,
        Recv_ok \<lparr>rx_data = [78, 71], rx_trunc = False, rx_ctrunc = False, rx_control = None\<rparr>]"
  let ?tr2 = "[Sys_sendmsg 4 ?payload None (Send_ok 4)]"
  let ?recvs2 = "[Recv_fail EINTR,
        Recv_ok \<lparr>rx_data = ?payload, rx_trunc = False, rx_ctrunc = False, rx_control = None\<rparr>]"
  have s1: "proxy_socket_send_request True \<lparr>proxy_socket.fd = 3\<rparr> (Some ?payload) [Write_ok 8]
     [Send_fail EINTR, Send_ok 1, Send_ok 3] = (Returned True, ?tr)"
    by (simp add: proxy_socket_send_request_def proxy_socket_send_request_internal_def
        proxy_socket_sendmsg_def hdr_bytes_eval Let_def)
  have s2: "render_socket_send_reply False \<lparr>render_socket.fd = 4\<rparr> (Some ?payload) []
       [Send_ok 4] = (Returned True, ?tr2)"
    by (simp add: render_socket_send_reply_def render_socket_send_reply_internal_def
        render_socket_sendmsg_def Let_def)
  have w1: "wire_delivers True ?tr ?reads ?recvs"
    by (simp add: wire_delivers_def)
  have w2: "wire_delivers False ?tr2 [] ?recvs2"
    by (simp add: wire_delivers_def)
  have h1: "length ?payload \<le> 16 \<and> (True \<longrightarrow> length ?payload < 2 ^ 32) \<and>
      proxy_socket_send_request True \<lparr>proxy_socket.fd = 3\<rparr> (Some ?payload) [Write_ok 8]
        [Send_fail EINTR, Send_ok 1, Send_ok 3] = (Returned True, ?tr) \<and>
      wire_delivers True ?tr ?reads ?recvs"
    using s1 w1 by simp
  have h2: "(False \<longrightarrow> length ?payload < 2 ^ 32) \<and>
      render_socket_send_reply False \<lparr>render_socket.fd = 4\<rparr> (Some ?payload) [] [Send_ok 4] =
        (Returned True, ?tr2) \<and>
      wire_delivers False ?tr2 [] ?recvs2"
    using s2 w2 by simp
  have len4: "length ?payload = 4" by simp
  have "fst (render_socket_receive_request True (\<lambda>d. 0) \<lparr>render_socket.fd = 4\<rparr> True 16
       ?reads ?recvs) = Returned (Some (?payload, length ?payload, [], None))"
    using send_receive_roundtrip [where payload = ?payload and cap = 16 and apple = True
        and ps = "\<lparr>proxy_socket.fd = 3\<rparr>" and writes = "[Write_ok 8]"
        and sends = "[Send_fail EINTR, Send_ok 1, Send_ok 3]" and tr = ?tr and reads = ?reads
        and recvs = ?recvs and getfd = "\<lambda>d. 0" and rsk = "\<lparr>render_socket.fd = 4\<rparr>",
        THEN conjunct1, THEN mp, OF h1] .
  then have r1: "fst (render_socket_receive_request True (\<lambda>d. 0) \<lparr>render_socket.fd = 4\<rparr> True 16
       ?reads ?recvs) = Returned (Some (?payload, 4, [], None))"
    by (simp only: len4)
  have "fst (proxy_socket_receive_reply False (\<lambda>d. 0) \<lparr>proxy_socket.fd = 3\<rparr> True
       (length ?payload) [] ?recvs2) = Returned (Some (?payload, [], None))"
    using send_receive_roundtrip [where payload = ?payload and apple = False
        and ps = "\<lparr>proxy_socket.fd = 3\<rparr>" and writes = "[]"
        and sends = "[Send_ok 4]" and tr = ?tr2 and reads = "[]"
        and recvs = ?recvs2 and getfd = "\<lambda>d. 0" and rsk = "\<lparr>render_socket.fd = 4\<rparr>",
        THEN conjunct2, THEN conjunct1, THEN mp, OF h2] .
  then have r2: "fst (proxy_socket_receive_reply False (\<lambda>d. 0) \<lparr>proxy_socket.fd = 3\<rparr> True 4 []
       ?recvs2) = Returned (Some (?payload, [], None))"
    by (simp only: len4)
  have e3: "render_socket_receive_request_internal False (\<lambda>d. 0) \<lparr>render_socket.fd = 4\<rparr> True 16
       False 0 False []
       [Recv_ok \<lparr>rx_data = ?payload, rx_trunc = False, rx_ctrunc = False, rx_control = None\<rparr>]
     = (Returned (Some (?payload, 4, [], None)), [])"
    by (simp add: render_socket_receive_request_internal_def Let_def control_eval
        get_received_fds_def)
  have r3: "length ?payload = 4 \<and> (4 :: nat) \<le> 16"
    by (rule send_receive_roundtrip [THEN conjunct2, THEN conjunct2, THEN conjunct1, THEN mp,
          OF e3])
  have e4: "proxy_socket_receive_reply_internal True (\<lambda>d. 0) \<lparr>proxy_socket.fd = 3\<rparr> True 4 False 0
       False [Read_ok [4, 0, 0, 0, 0, 0, 0, 0]]
       [Recv_ok \<lparr>rx_data = [80, 73], rx_trunc = False, rx_ctrunc = False, rx_control = None\<rparr>,
        Recv_ok \<lparr>rx_data = [78, 71], rx_trunc = False, rx_ctrunc = False, rx_control = None\<rparr>]
     = (Returned (Some (?payload, [], None)),
        [Log ''proxy_receive_reply: reading framing header, expecting size=%zu'',
         Log ''proxy_receive_reply: got header size=%u fd_count=%u''])"
    by (simp add: proxy_socket_receive_reply_internal_def Let_def control_eval
        get_received_fds_def bytes_hdr_eval proxy_socket_receive_reply_loop.simps)
  have r4: "length ?payload = 4"
    by (rule send_receive_roundtrip [THEN conjunct2, THEN conjunct2, THEN conjunct2, THEN mp,
          OF e4])
  show ?thesis
    using s1 s2 r1 r2 e3 r3 e4 r4 by simp
qed

text \<open>
  C1 as stated fails for the client's role: \<^verbatim>\<open>proxy_socket_receive_reply\<close> takes the size
  as the exact length of the reply, not as a capacity. The server sends one byte, the
  wire delivers it, and the client, asking for 2, returns \<open>false\<close>, in both framings.
\<close>

theorem client_receive_needs_exact_size:
  "render_socket_send_reply False \<lparr>render_socket.fd = 4\<rparr> (Some [9]) [] [Send_ok 1]
     = (Returned True, [Sys_sendmsg 4 [9] None (Send_ok 1)])
   \<and> wire_delivers False [Sys_sendmsg 4 [9] None (Send_ok 1)] []
       [Recv_ok \<lparr>rx_data = [9], rx_trunc = False, rx_ctrunc = False, rx_control = None\<rparr>]
   \<and> proxy_socket_receive_reply False (\<lambda>d. 0) \<lparr>proxy_socket.fd = 3\<rparr> True 2 []
       [Recv_ok \<lparr>rx_data = [9], rx_trunc = False, rx_ctrunc = False, rx_control = None\<rparr>]
     = (Returned None, [Log ''failed to receive message: incomplete''])
   \<and> render_socket_send_reply True \<lparr>render_socket.fd = 4\<rparr> (Some [9]) [Write_ok 8] [Send_ok 1]
     = (Returned True,
        [Sys_write 4 [1, 0, 0, 0, 0, 0, 0, 0] (Write_ok 8), Sys_sendmsg 4 [9] None (Send_ok 1)])
   \<and> wire_delivers True
       [Sys_write 4 [1, 0, 0, 0, 0, 0, 0, 0] (Write_ok 8), Sys_sendmsg 4 [9] None (Send_ok 1)]
       [Read_ok [1, 0, 0, 0, 0, 0, 0, 0]]
       [Recv_ok \<lparr>rx_data = [9], rx_trunc = False, rx_ctrunc = False, rx_control = None\<rparr>]
   \<and> proxy_socket_receive_reply True (\<lambda>d. 0) \<lparr>proxy_socket.fd = 3\<rparr> True 2
       [Read_ok [1, 0, 0, 0, 0, 0, 0, 0]]
       [Recv_ok \<lparr>rx_data = [9], rx_trunc = False, rx_ctrunc = False, rx_control = None\<rparr>]
     = (Returned None,
        [Log ''proxy_receive_reply: reading framing header, expecting size=%zu'',
         Log ''proxy_receive_reply: got header size=%u fd_count=%u'',
         Log ''message size mismatch: expected %zu but got %u''])"
  by (simp add: render_socket_send_reply_def render_socket_send_reply_internal_def
      render_socket_sendmsg_def Let_def wire_delivers_def hdr_bytes_eval bytes_hdr_eval
      proxy_socket_receive_reply_def proxy_socket_receive_reply_internal_def
      control_eval get_received_fds_def)

text \<open>The bound on the stream framing: a payload of \<open>2^32\<close> bytes is announced by a header
  whose size field is 0, and the server's receive returns an empty message for it.\<close>

lemma stream_header_wraps_size:
  assumes "length payload = 2 ^ 32"
  shows "fst (proxy_socket_send_request True ps (Some payload) [Write_ok 8] [Send_ok (2 ^ 32)]) =
           Returned True
       \<and> take 8 (wire_bytes (snd (proxy_socket_send_request True ps (Some payload) [Write_ok 8]
           [Send_ok (2 ^ 32)]))) = hdr_bytes \<lparr>hdr_size = 0, hdr_fd_count = 0\<rparr>
       \<and> fst (render_socket_receive_request True getfd rsk True cap
           [Read_ok (hdr_bytes \<lparr>hdr_size = 0, hdr_fd_count = 0\<rparr>)] recvs) =
           (if cap = 0 then Aborted else Returned (Some ([], 0, [], None)))"
proof -
  have ne: "payload \<noteq> []" using assms by auto
  have z: "(of_nat (length payload) :: 32 word) = 0"
    using assms by simp
  have mn: "min (2 ^ 32) (length payload) = length payload"
    using assms by simp
  have l8: "length (hdr_bytes \<lparr>hdr_size = 0, hdr_fd_count = 0\<rparr>) = 8"
    by (rule length_hdr_bytes)
  have nn: "hdr_bytes \<lparr>hdr_size = 0, hdr_fd_count = 0\<rparr> \<noteq> []"
    using l8 by auto
  have rd: "render_socket_read_all [Read_ok (hdr_bytes \<lparr>hdr_size = 0, hdr_fd_count = 0\<rparr>)] [] 8
      = (Returned (True, hdr_bytes \<lparr>hdr_size = 0, hdr_fd_count = 0\<rparr>), [])"
    using l8 nn by (simp add: Let_def)
  have snd': "proxy_socket_send_request True ps (Some payload) [Write_ok 8] [Send_ok (2 ^ 32)] =
      (Returned True,
       [Log ''proxy_send_request: sending framing header size=%u fd_count=%u'',
        Sys_write (proxy_socket.fd ps) (hdr_bytes \<lparr>hdr_size = 0, hdr_fd_count = 0\<rparr>) (Write_ok 8),
        Log ''proxy_send_request: sending data size=%zu'',
        Sys_sendmsg (proxy_socket.fd ps) payload None (Send_ok (2 ^ 32))])"
    using ne z l8 nn mn
    by (simp add: proxy_socket_send_request_def proxy_socket_send_request_internal_def
        proxy_socket_sendmsg_def Let_def)
  have a: "fst (proxy_socket_send_request True ps (Some payload) [Write_ok 8]
      [Send_ok (2 ^ 32)]) = Returned True"
    unfolding snd' by simp
  have b: "take 8 (wire_bytes (snd (proxy_socket_send_request True ps (Some payload) [Write_ok 8]
           [Send_ok (2 ^ 32)]))) = hdr_bytes \<lparr>hdr_size = 0, hdr_fd_count = 0\<rparr>"
    unfolding snd' using l8 by simp
  have c: "fst (render_socket_receive_request True getfd rsk True cap
           [Read_ok (hdr_bytes \<lparr>hdr_size = 0, hdr_fd_count = 0\<rparr>)] recvs) =
           (if cap = 0 then Aborted else Returned (Some ([], 0, [], None)))"
    unfolding render_socket_receive_request_def render_socket_receive_request_internal_def rd
    by (simp add: bytes_hdr_hdr_bytes Let_def render_socket_receive_request_loop.simps)
  show ?thesis
    using a b c by blast
qed

end
